theory Spec2Isabelle
  imports Main
begin

section \<open>JavaScript values\<close>

text \<open>
  The program (\<^verbatim>\<open>src/main.ts\<close>) keeps its registry as an untyped JavaScript object that it
  reads with \<^verbatim>\<open>JSON.parse\<close> and writes with \<^verbatim>\<open>JSON.stringify\<close>. Values are modelled
  as they are at run time:
  \<^item> \<open>JNum n\<close> is a number with the integral value \<open>n\<close> (process ids); numbers with a
    fraction or an exponent are outside the model, and so is the printed form of an
    integer too large for the run time to hold exactly;
  \<^item> \<open>JStr s\<close> is a string; a character is one code unit in the range 0..255;
  \<^item> \<open>JObj ps\<close> is an ordinary object whose prototype is \<^verbatim>\<open>Object.prototype\<close>; \<open>ps\<close> lists
    its own properties in the order in which \<^verbatim>\<open>Object.keys\<close> enumerates them;
  \<^item> \<open>JNative f\<close> is the built-in function that every ordinary object inherits from
    \<^verbatim>\<open>Object.prototype\<close> under the name \<open>f\<close>. The program can come to hold one, test it
    and read a property of it; it never prints or stores one.
\<close>

datatype jsval =
    JUndefined
  | JNull
  | JBool bool
  | JNum int
  | JStr string
  | JArr "jsval list"
  | JObj "(string \<times> jsval) list"
  | JNative string

datatype error = SyntaxError | TypeError | Unmodelled

text \<open>
  \<open>SyntaxError\<close> and \<open>TypeError\<close> are the exceptions of the run time. \<open>Unmodelled\<close> marks an
  input on which the model says nothing (a number that is not an integer literal, a
  \<^verbatim>\<open>\u\<close> escape beyond code unit 255, a registry file whose top-level value is not an
  object, the string conversion of a built-in function or of an integer that is not
  safe).
\<close>

subsection \<open>Numbers and strings\<close>

definition digit_char :: "nat \<Rightarrow> char" where
  "digit_char d = char_of (48 + d)"

fun show_nat :: "nat \<Rightarrow> string" where
  "show_nat n = (if n < 10 then [digit_char n] else show_nat (n div 10) @ [digit_char (n mod 10)])"

declare show_nat.simps [simp del]

definition show_int :: "int \<Rightarrow> string" where
  "show_int i = (if i < 0 then CHR ''-'' # show_nat (nat (- i)) else show_nat (nat i))"

text \<open>\<^verbatim>\<open>xs.join(sep)\<close> on an array of strings.\<close>

fun join :: "string \<Rightarrow> string list \<Rightarrow> string" where
  "join sep [] = []"
| "join sep [x] = x"
| "join sep (x # y # ys) = x @ sep @ join sep (y # ys)"

text \<open>\<^verbatim>\<open>s.split(c)\<close> for a separator of one character: never the empty array.\<close>

fun split_on :: "char \<Rightarrow> string \<Rightarrow> string list" where
  "split_on c [] = [[]]"
| "split_on c (x # xs) =
     (if x = c then [] # split_on c xs
      else (case split_on c xs of [] \<Rightarrow> [[x]] | y # ys \<Rightarrow> (x # y) # ys))"

text \<open>\<^verbatim>\<open>s.replace(c, '')\<close> with a string pattern: only the first occurrence goes.\<close>

fun replace_first :: "char \<Rightarrow> string \<Rightarrow> string" where
  "replace_first c [] = []"
| "replace_first c (x # xs) = (if x = c then xs else x # replace_first c xs)"

text \<open>
  A number that the run time holds exactly, and prints digit by digit: an integer up to
  \<^verbatim>\<open>Number.MAX_SAFE_INTEGER\<close>.
\<close>

definition safe_integer :: "int \<Rightarrow> bool" where
  "safe_integer n = (- 9007199254740991 \<le> n \<and> n \<le> 9007199254740991)"

definition callable :: "jsval \<Rightarrow> bool" where
  "callable v = (case v of JNative f \<Rightarrow> True | _ \<Rightarrow> False)"

text \<open>
  The string conversion of a template literal \<^verbatim>\<open>`${v}`\<close>, which can throw.
  \<^item> An array joins its elements with a comma, \<^verbatim>\<open>null\<close> and \<^verbatim>\<open>undefined\<close> elements giving
    the empty string, and throws when the conversion of an element does.
  \<^item> An object is converted by its \<^verbatim>\<open>toString\<close>, then by its \<^verbatim>\<open>valueOf\<close>. The inherited
    \<^verbatim>\<open>toString\<close> gives \<^verbatim>\<open>[object Object]\<close>. An own property of that name hides it; when
    its value is not a function (as in every object read from JSON text) the conversion
    falls to \<^verbatim>\<open>valueOf\<close>, which, inherited, returns the object itself and, own and not a
    function, is passed over: a \<^verbatim>\<open>TypeError\<close> either way.
  \<^item> The conversion of a built-in function, of an object that holds one as \<^verbatim>\<open>toString\<close> or
    \<^verbatim>\<open>valueOf\<close>, and of a number that is not a safe integer are outside the model.
\<close>

fun to_string :: "jsval \<Rightarrow> error + string"
and to_string_elems :: "jsval list \<Rightarrow> error + string list" where
  "to_string JUndefined = Inr ''undefined''"
| "to_string JNull = Inr ''null''"
| "to_string (JBool b) = Inr (if b then ''true'' else ''false'')"
| "to_string (JNum n) = (if safe_integer n then Inr (show_int n) else Inl Unmodelled)"
| "to_string (JStr s) = Inr s"
| "to_string (JArr xs) =
     (case to_string_elems xs of Inl e \<Rightarrow> Inl e | Inr ss \<Rightarrow> Inr (join '','' ss))"
| "to_string (JObj ps) =
     (case map_of ps ''toString'' of
        None \<Rightarrow> Inr ''[object Object]''
      | Some m \<Rightarrow>
          if callable m then Inl Unmodelled
          else (case map_of ps ''valueOf'' of
                  None \<Rightarrow> Inl TypeError
                | Some m' \<Rightarrow> if callable m' then Inl Unmodelled else Inl TypeError))"
| "to_string (JNative f) = Inl Unmodelled"
| "to_string_elems [] = Inr []"
| "to_string_elems (x # xs) =
     (case (if x = JUndefined \<or> x = JNull then Inr [] else to_string x) of
        Inl e \<Rightarrow> Inl e
      | Inr s \<Rightarrow>
          (case to_string_elems xs of Inl e \<Rightarrow> Inl e | Inr ss \<Rightarrow> Inr (s # ss)))"

text \<open>
  The element at index \<open>i\<close> of an array of strings: none out of range, where the run time
  gives \<^verbatim>\<open>undefined\<close>.
\<close>

definition element :: "string list \<Rightarrow> nat \<Rightarrow> string option" where
  "element xs i = (if i < length xs then Some (xs ! i) else None)"

section \<open>JSON text\<close>

subsection \<open>Own properties in enumeration order\<close>

definition is_digit :: "char \<Rightarrow> bool" where
  "is_digit c = (48 \<le> (of_char c :: nat) \<and> (of_char c :: nat) \<le> 57)"

definition digit_val :: "char \<Rightarrow> nat" where
  "digit_val c = of_char c - 48"

definition nat_of_digits :: "string \<Rightarrow> nat" where
  "nat_of_digits ds = foldl (\<lambda>a c. 10 * a + digit_val c) 0 ds"

text \<open>
  An array index is a canonical numeric string below \<open>2^32 - 1\<close>. An object enumerates its
  array-index keys first, in ascending numeric order, and then its other string keys in
  the order of their creation.
\<close>

definition is_index :: "string \<Rightarrow> bool" where
  "is_index k = (k \<noteq> [] \<and> list_all is_digit k \<and> (k = ''0'' \<or> hd k \<noteq> CHR ''0'')
                 \<and> nat_of_digits k < 4294967295)"

fun insert_index :: "string \<Rightarrow> jsval \<Rightarrow> (string \<times> jsval) list \<Rightarrow> (string \<times> jsval) list" where
  "insert_index k v [] = [(k, v)]"
| "insert_index k v ((k', v') # ps) =
     (if is_index k' \<and> nat_of_digits k' < nat_of_digits k then (k', v') # insert_index k v ps
      else (k, v) # (k', v') # ps)"

fun update_prop :: "string \<Rightarrow> jsval \<Rightarrow> (string \<times> jsval) list \<Rightarrow> (string \<times> jsval) list" where
  "update_prop k v [] = []"
| "update_prop k v ((k', v') # ps) =
     (if k' = k then (k, v) # ps else (k', v') # update_prop k v ps)"

text \<open>
  Creating or overwriting the own data property \<open>k\<close>: an existing key keeps its place, a
  new one is enumerated after the keys of its kind.
\<close>

definition define_prop :: "string \<Rightarrow> jsval \<Rightarrow> (string \<times> jsval) list \<Rightarrow> (string \<times> jsval) list" where
  "define_prop k v ps =
     (if k \<in> fst ` set ps then update_prop k v ps
      else if is_index k then insert_index k v ps
      else ps @ [(k, v)])"

subsection \<open>JSON.stringify with an indentation of two spaces\<close>

text \<open>
  A string is quoted with the two-character escapes for backspace, tab, line feed, form
  feed, carriage return, the double quote and the backslash, and \<^verbatim>\<open>\u00XX\<close> (lower-case
  digits) for the other characters below space. A value that JSON cannot carry
  (\<^verbatim>\<open>undefined\<close>, a function) has no text: as a property it is left out, as an element
  of an array it is written \<^verbatim>\<open>null\<close>. An empty array or object is written without a line
  break; otherwise every member stands on a line of its own, indented by two spaces more
  than the line of the bracket.
\<close>

definition hex_digit :: "nat \<Rightarrow> char" where
  "hex_digit d = (if d < 10 then char_of (48 + d) else char_of (87 + d))"

definition escape_char :: "char \<Rightarrow> string" where
  "escape_char c =
     (if c = CHR 0x08 then [CHR 0x5C, CHR ''b'']
      else if c = CHR 0x09 then [CHR 0x5C, CHR ''t'']
      else if c = CHR 0x0A then [CHR 0x5C, CHR ''n'']
      else if c = CHR 0x0C then [CHR 0x5C, CHR ''f'']
      else if c = CHR 0x0D then [CHR 0x5C, CHR ''r'']
      else if c = CHR 0x22 then [CHR 0x5C, CHR 0x22]
      else if c = CHR 0x5C then [CHR 0x5C, CHR 0x5C]
      else if (of_char c :: nat) < 32
        then [CHR 0x5C, CHR ''u'', CHR ''0'', CHR ''0'',
              hex_digit ((of_char c :: nat) div 16), hex_digit ((of_char c :: nat) mod 16)]
      else [c])"

definition quote :: "string \<Rightarrow> string" where
  "quote s = CHR 0x22 # concat (map escape_char s) @ [CHR 0x22]"

definition gap :: string where
  "gap = ''  ''"

definition wrap :: "char \<Rightarrow> char \<Rightarrow> string \<Rightarrow> string list \<Rightarrow> string" where
  "wrap l r ind partial =
     (if partial = [] then [l, r]
      else [l, CHR 0x0A] @ ind @ gap @ join ([CHR '','', CHR 0x0A] @ ind @ gap) partial
           @ [CHR 0x0A] @ ind @ [r])"

fun ser :: "string \<Rightarrow> jsval \<Rightarrow> string option"
and ser_elems :: "string \<Rightarrow> jsval list \<Rightarrow> string list"
and ser_props :: "string \<Rightarrow> (string \<times> jsval) list \<Rightarrow> string list" where
  "ser ind JUndefined = None"
| "ser ind (JNative f) = None"
| "ser ind JNull = Some ''null''"
| "ser ind (JBool b) = Some (if b then ''true'' else ''false'')"
| "ser ind (JNum n) = Some (show_int n)"
| "ser ind (JStr s) = Some (quote s)"
| "ser ind (JArr xs) = Some (wrap CHR ''['' CHR '']'' ind (ser_elems (ind @ gap) xs))"
| "ser ind (JObj ps) = Some (wrap CHR ''{'' CHR ''}'' ind (ser_props (ind @ gap) ps))"
| "ser_elems ind [] = []"
| "ser_elems ind (x # xs) =
     (case ser ind x of None \<Rightarrow> ''null'' | Some s \<Rightarrow> s) # ser_elems ind xs"
| "ser_props ind [] = []"
| "ser_props ind ((k, v) # ps) =
     (case ser ind v of None \<Rightarrow> ser_props ind ps
      | Some s \<Rightarrow> (quote k @ '': '' @ s) # ser_props ind ps)"

text \<open>\<^verbatim>\<open>JSON.stringify(v, null, 2)\<close>: \<open>None\<close> stands for the result \<^verbatim>\<open>undefined\<close>.\<close>

definition JSON_stringify :: "jsval \<Rightarrow> string option" where
  "JSON_stringify v = ser [] v"

subsection \<open>JSON.parse\<close>

definition is_ws :: "char \<Rightarrow> bool" where
  "is_ws c = (c = CHR '' '' \<or> c = CHR 0x09 \<or> c = CHR 0x0A \<or> c = CHR 0x0D)"

definition hex_val :: "char \<Rightarrow> nat option" where
  "hex_val c =
     (let n = (of_char c :: nat) in
      if 48 \<le> n \<and> n \<le> 57 then Some (n - 48)
      else if 97 \<le> n \<and> n \<le> 102 then Some (n - 87)
      else if 65 \<le> n \<and> n \<le> 70 then Some (n - 55)
      else None)"

definition hex4 :: "char \<Rightarrow> char \<Rightarrow> char \<Rightarrow> char \<Rightarrow> nat option" where
  "hex4 a b c d =
     (case (hex_val a, hex_val b, hex_val c, hex_val d) of
        (Some x, Some y, Some z, Some w) \<Rightarrow> Some (((x * 16 + y) * 16 + z) * 16 + w)
      | _ \<Rightarrow> None)"

definition unescape :: "char \<Rightarrow> char option" where
  "unescape e =
     (if e = CHR 0x22 then Some (CHR 0x22)
      else if e = CHR 0x5C then Some (CHR 0x5C)
      else if e = CHR ''/'' then Some (CHR ''/'')
      else if e = CHR ''b'' then Some (CHR 0x08)
      else if e = CHR ''f'' then Some (CHR 0x0C)
      else if e = CHR ''n'' then Some (CHR 0x0A)
      else if e = CHR ''r'' then Some (CHR 0x0D)
      else if e = CHR ''t'' then Some (CHR 0x09)
      else None)"

definition cons_char :: "char \<Rightarrow> error + (string \<times> string) \<Rightarrow> error + (string \<times> string)" where
  "cons_char c r = (case r of Inl e \<Rightarrow> Inl e | Inr (s, rest) \<Rightarrow> Inr (c # s, rest))"

text \<open>The characters of a string literal after its opening quote, and what follows it.\<close>

fun str_body :: "string \<Rightarrow> error + (string \<times> string)" where
  "str_body [] = Inl SyntaxError"
| "str_body (c # cs) =
     (if c = CHR 0x22 then Inr ([], cs)
      else if c = CHR 0x5C then
        (case cs of
           [] \<Rightarrow> Inl SyntaxError
         | e # cs1 \<Rightarrow>
             if e = CHR ''u'' then
               (case cs1 of
                  h1 # h2 # h3 # h4 # cs2 \<Rightarrow>
                    (case hex4 h1 h2 h3 h4 of
                       None \<Rightarrow> Inl SyntaxError
                     | Some n \<Rightarrow>
                         if n < 256 then cons_char (char_of n) (str_body cs2)
                         else Inl Unmodelled)
                | _ \<Rightarrow> Inl SyntaxError)
             else (case unescape e of
                     None \<Rightarrow> Inl SyntaxError
                   | Some ch \<Rightarrow> cons_char ch (str_body cs1)))
      else if (of_char c :: nat) < 32 then Inl SyntaxError
      else cons_char c (str_body cs))"

text \<open>
  A number literal: an optional minus sign, then either a single \<open>0\<close> or a run of digits
  that does not start with \<open>0\<close>. A fraction or an exponent is outside the model.
\<close>

definition parse_number :: "string \<Rightarrow> error + (int \<times> string)" where
  "parse_number s =
     (let neg = (case s of [] \<Rightarrow> False | c # _ \<Rightarrow> c = CHR ''-'');
          s1 = (if neg then tl s else s)
      in case s1 of
           [] \<Rightarrow> Inl SyntaxError
         | d # t \<Rightarrow>
             if \<not> is_digit d then Inl SyntaxError
             else
               let ds = (if d = CHR ''0'' then [d] else takeWhile is_digit s1);
                   rest = (if d = CHR ''0'' then t else dropWhile is_digit s1)
               in (case rest of
                     [] \<Rightarrow> Inr ((if neg then - int (nat_of_digits ds) else int (nat_of_digits ds)), rest)
                   | r # _ \<Rightarrow>
                       if r = CHR ''.'' \<or> r = CHR ''e'' \<or> r = CHR ''E'' then Inl Unmodelled
                       else Inr ((if neg then - int (nat_of_digits ds) else int (nat_of_digits ds)), rest)))"

text \<open>
  \<^verbatim>\<open>JSON.parse\<close> is modelled as a machine that reads the text once, left to right. Its stack
  holds one frame per array or object that is still open: the elements read so far (in
  reverse), or the properties defined so far together with the key whose value is being
  read. Its mode says what may come next: a value, the first element of an array or its
  closing bracket, the first key of an object or its closing brace, a key, the colon
  after a key, or what follows a complete value (a comma, a closing bracket or brace, or
  the end of the text). Anything else is a \<open>SyntaxError\<close>. A repeated key overwrites the
  earlier value, as \<open>define_prop\<close> does.
\<close>

datatype frame = FArr "jsval list" | FObj "(string \<times> jsval) list" string

datatype mode =
    MValue
  | MArrStart
  | MObjStart
  | MKey "(string \<times> jsval) list"
  | MColon "(string \<times> jsval) list" string
  | MAfter jsval

definition begin_value :: "frame list \<Rightarrow> char \<Rightarrow> string \<Rightarrow> error + (mode \<times> frame list \<times> string)" where
  "begin_value stk c cs =
     (if c = CHR ''{'' then Inr (MObjStart, stk, cs)
      else if c = CHR ''['' then Inr (MArrStart, stk, cs)
      else if c = CHR 0x22 then
        (case str_body cs of Inl e \<Rightarrow> Inl e | Inr (s, rest) \<Rightarrow> Inr (MAfter (JStr s), stk, rest))
      else if c = CHR ''-'' \<or> is_digit c then
        (case parse_number (c # cs) of
           Inl e \<Rightarrow> Inl e
         | Inr (n, rest) \<Rightarrow> Inr (MAfter (JNum n), stk, rest))
      else if c = CHR ''t'' \<and> take 3 cs = ''rue'' then Inr (MAfter (JBool True), stk, drop 3 cs)
      else if c = CHR ''f'' \<and> take 4 cs = ''alse'' then Inr (MAfter (JBool False), stk, drop 4 cs)
      else if c = CHR ''n'' \<and> take 3 cs = ''ull'' then Inr (MAfter JNull, stk, drop 3 cs)
      else Inl SyntaxError)"

definition begin_key :: "(string \<times> jsval) list \<Rightarrow> frame list \<Rightarrow> char \<Rightarrow> string
    \<Rightarrow> error + (mode \<times> frame list \<times> string)" where
  "begin_key ps stk c cs =
     (if c = CHR 0x22 then
        (case str_body cs of Inl e \<Rightarrow> Inl e | Inr (k, rest) \<Rightarrow> Inr (MColon ps k, stk, rest))
      else Inl SyntaxError)"

definition step :: "mode \<Rightarrow> frame list \<Rightarrow> char \<Rightarrow> string \<Rightarrow> error + (mode \<times> frame list \<times> string)" where
  "step m stk c cs =
     (if is_ws c then Inr (m, stk, cs)
      else case m of
        MValue \<Rightarrow> begin_value stk c cs
      | MArrStart \<Rightarrow>
          if c = CHR '']'' then Inr (MAfter (JArr []), stk, cs)
          else begin_value (FArr [] # stk) c cs
      | MObjStart \<Rightarrow>
          if c = CHR ''}'' then Inr (MAfter (JObj []), stk, cs)
          else begin_key [] stk c cs
      | MKey ps \<Rightarrow> begin_key ps stk c cs
      | MColon ps k \<Rightarrow>
          if c = CHR '':'' then Inr (MValue, FObj ps k # stk, cs) else Inl SyntaxError
      | MAfter v \<Rightarrow>
          (case stk of
             [] \<Rightarrow> Inl SyntaxError
           | FArr acc # stk' \<Rightarrow>
               if c = CHR '','' then Inr (MValue, FArr (v # acc) # stk', cs)
               else if c = CHR '']'' then Inr (MAfter (JArr (rev (v # acc))), stk', cs)
               else Inl SyntaxError
           | FObj ps k # stk' \<Rightarrow>
               if c = CHR '','' then Inr (MKey (define_prop k v ps), stk', cs)
               else if c = CHR ''}'' then Inr (MAfter (JObj (define_prop k v ps)), stk', cs)
               else Inl SyntaxError))"

lemma cons_char_Inr: "cons_char c r = Inr (s, rest) \<Longrightarrow> \<exists>s'. r = Inr (s', rest)"
  by (auto simp: cons_char_def split: sum.splits)

lemma str_body_shorter: "str_body s = Inr (x, rest) \<Longrightarrow> length rest < length s"
proof (induction s arbitrary: x rule: str_body.induct)
  case 1
  then show ?case by simp
next
  case (2 c cs)
  then show ?case
    by (fastforce split: if_splits list.splits option.splits dest!: cons_char_Inr)
qed

lemma dropWhile_shorter: "length (dropWhile P xs) < Suc (length xs)"
  by (simp add: le_imp_less_Suc length_dropWhile_le)

lemma dropWhile_shorter2: "length (dropWhile P xs) < Suc (Suc (length xs))"
  by (simp add: le_imp_less_Suc le_SucI length_dropWhile_le)

lemma parse_number_shorter: "parse_number s = Inr (n, rest) \<Longrightarrow> length rest < length s"
  by (cases s)
    (auto simp: parse_number_def Let_def dropWhile_shorter dropWhile_shorter2
      split: list.splits if_splits)

lemma begin_value_shorter:
  "begin_value stk c cs = Inr (m', stk', rest) \<Longrightarrow> length rest \<le> length cs"
  by (auto simp: begin_value_def split: if_splits sum.splits
      dest: str_body_shorter parse_number_shorter)

lemma begin_key_shorter:
  "begin_key ps stk c cs = Inr (m', stk', rest) \<Longrightarrow> length rest \<le> length cs"
  by (auto simp: begin_key_def split: if_splits sum.splits dest: str_body_shorter)

lemma step_shorter: "step m stk c cs = Inr (m', stk', rest) \<Longrightarrow> length rest \<le> length cs"
  by (auto simp: step_def split: if_splits mode.splits list.splits frame.splits
      dest: begin_value_shorter begin_key_shorter)

text \<open>The machine runs to the end of the text; every step consumes at least one character.\<close>

function run :: "mode \<Rightarrow> frame list \<Rightarrow> string \<Rightarrow> error + jsval" where
  "run m stk [] =
     (case m of MAfter v \<Rightarrow> (if stk = [] then Inr v else Inl SyntaxError) | _ \<Rightarrow> Inl SyntaxError)"
| "run m stk (c # cs) =
     (case step m stk c cs of
        Inl e \<Rightarrow> Inl e
      | Inr (m', stk', rest) \<Rightarrow> run m' stk' rest)"
  by pat_completeness auto
termination
  by (relation "measure (\<lambda>(m, stk, s). length s)") (auto dest: step_shorter)

definition JSON_parse :: "string \<Rightarrow> error + jsval" where
  "JSON_parse s = run MValue [] s"

subsection \<open>Values that JSON text can carry\<close>

text \<open>
  The own keys of an object are distinct and stand in enumeration order: the array
  indices first, ascending.
\<close>

definition key_before :: "string \<Rightarrow> string \<Rightarrow> bool" where
  "key_before a b =
     (if is_index b then is_index a \<and> nat_of_digits a < nat_of_digits b else True)"

definition own_keys :: "string list \<Rightarrow> bool" where
  "own_keys ks = (distinct ks \<and> sorted_wrt key_before ks)"

fun json_value :: "jsval \<Rightarrow> bool"
and json_elems :: "jsval list \<Rightarrow> bool"
and json_props :: "(string \<times> jsval) list \<Rightarrow> bool" where
  "json_value JUndefined = False"
| "json_value (JNative f) = False"
| "json_value JNull = True"
| "json_value (JBool b) = True"
| "json_value (JNum n) = True"
| "json_value (JStr s) = True"
| "json_value (JArr xs) = json_elems xs"
| "json_value (JObj ps) = (own_keys (map fst ps) \<and> json_props ps)"
| "json_elems [] = True"
| "json_elems (x # xs) = (json_value x \<and> json_elems xs)"
| "json_props [] = True"
| "json_props ((k, v) # ps) = (json_value v \<and> json_props ps)"

section \<open>Descriptor resolution\<close>

definition REGISTRY_URL :: string where
  "REGISTRY_URL = ''https://registry.mcpk.io''"

text \<open>
  \<^verbatim>\<open>fetchServerInfo\<close> (lines 34-47) logs one line and returns an object literal. The result
  is the pair of the logged line and the returned descriptor. \<^verbatim>\<open>const [scope, name] =
  serverName.split('/')\<close> binds \<open>name\<close> to the element at index 1, \<^verbatim>\<open>undefined\<close> when the
  split has a single part; the template literal prints a string as it is and \<^verbatim>\<open>undefined\<close>
  by its name.
\<close>

definition fetchServerInfo :: "string \<Rightarrow> string \<times> jsval" where
  "fetchServerInfo serverName =
     (let name = element (split_on CHR ''/'' serverName) 1
      in (''Fetching information for '' @ serverName @ '' from '' @ REGISTRY_URL @ ''...'',
          JObj [(''name'', JStr serverName),
                (''command'', JStr ''npx''),
                (''args'', JArr [JStr ''-y'', JStr serverName]),
                (''description'',
                 JStr (''MCP Server for ''
                       @ (case name of Some part \<Rightarrow> part | None \<Rightarrow> ''undefined''))),
                (''version'', JStr ''1.0.0'')]))"

section \<open>Objects at run time\<close>

text \<open>
  What an ordinary object inherits from \<^verbatim>\<open>Object.prototype\<close>: eleven built-in functions, and
  the accessor \<^verbatim>\<open>__proto__\<close>, which yields \<^verbatim>\<open>Object.prototype\<close> itself (an object on which
  none of the names that the program reads is defined).
\<close>

definition inherited_names :: "string list" where
  "inherited_names =
     [''constructor'', ''hasOwnProperty'', ''isPrototypeOf'', ''propertyIsEnumerable'',
      ''toLocaleString'', ''toString'', ''valueOf'', ''__defineGetter__'', ''__defineSetter__'',
      ''__lookupGetter__'', ''__lookupSetter__'']"

definition object_prototype :: "string \<Rightarrow> jsval option" where
  "object_prototype k =
     (if k = ''__proto__'' then Some (JObj [])
      else if k \<in> set inherited_names then Some (JNative k)
      else None)"

text \<open>The property names that the program reads from a registry record and its descriptor.\<close>

definition record_fields :: "string list" where
  "record_fields =
     [''pid'', ''startTime'', ''info'', ''description'', ''version'', ''command'', ''args'']"

text \<open>
  The property read \<^verbatim>\<open>v[k]\<close>. On \<^verbatim>\<open>null\<close> and \<^verbatim>\<open>undefined\<close> it throws. On an object it finds
  the own property, then the inherited one. A primitive value, an array or a built-in
  function defines none of the record fields; what they answer to other names is
  outside the model.
\<close>

definition get_prop :: "jsval \<Rightarrow> string \<Rightarrow> error + jsval" where
  "get_prop v k =
     (case v of
        JUndefined \<Rightarrow> Inl TypeError
      | JNull \<Rightarrow> Inl TypeError
      | JObj ps \<Rightarrow>
          Inr (case map_of ps k of
                 Some x \<Rightarrow> x
               | None \<Rightarrow> (case object_prototype k of Some x \<Rightarrow> x | None \<Rightarrow> JUndefined))
      | _ \<Rightarrow> if k \<in> set record_fields then Inr JUndefined else Inl Unmodelled)"

text \<open>The condition of an \<^verbatim>\<open>if\<close>: everything is true but the six falsy values.\<close>

definition truthy :: "jsval \<Rightarrow> bool" where
  "truthy v =
     (case v of
        JUndefined \<Rightarrow> False
      | JNull \<Rightarrow> False
      | JBool b \<Rightarrow> b
      | JNum n \<Rightarrow> n \<noteq> 0
      | JStr s \<Rightarrow> s \<noteq> []
      | _ \<Rightarrow> True)"

text \<open>
  The assignment \<^verbatim>\<open>o[k] = v\<close> on an object with own properties \<open>ps\<close>. The one name that
  is not stored when it is not yet an own property is \<^verbatim>\<open>__proto__\<close>: the inherited
  setter replaces the prototype instead.
\<close>

definition assign_prop :: "(string \<times> jsval) list \<Rightarrow> string \<Rightarrow> jsval \<Rightarrow> (string \<times> jsval) list" where
  "assign_prop ps k v =
     (if k = ''__proto__'' \<and> k \<notin> fst ` set ps then ps else define_prop k v ps)"

text \<open>\<^verbatim>\<open>delete o[k]\<close>.\<close>

definition delete_prop :: "(string \<times> jsval) list \<Rightarrow> string \<Rightarrow> (string \<times> jsval) list" where
  "delete_prop ps k = filter (\<lambda>p. fst p \<noteq> k) ps"

section \<open>The registry file\<close>

text \<open>
  \<^verbatim>\<open>JSON.stringify(o, null, 2)\<close> for an object \<open>o\<close> with own properties \<open>ps\<close>: always a
  string.
\<close>

definition stringify_object :: "(string \<times> jsval) list \<Rightarrow> string" where
  "stringify_object ps = wrap CHR ''{'' CHR ''}'' [] (ser_props gap ps)"

text \<open>
  The state of the program is the content of \<^verbatim>\<open>~/.mcpk/running.json\<close>. The start-up code
  (lines 15-23) creates the file with the text of the empty object when it is missing, so
  every command finds a file; reading and writing it are taken to succeed.
\<close>

definition initial_file :: "string option \<Rightarrow> string" where
  "initial_file f = (case f of None \<Rightarrow> stringify_object [] | Some s \<Rightarrow> s)"

definition getRunningServers :: "string \<Rightarrow> error + jsval" where
  "getRunningServers file = JSON_parse file"

text \<open>\<open>saveRunningServers servers\<close> is the new content of the file.\<close>

definition saveRunningServers :: "(string \<times> jsval) list \<Rightarrow> string" where
  "saveRunningServers servers = stringify_object servers"

section \<open>Configuration snippets\<close>

text \<open>
  \<^verbatim>\<open>args.map(arg => `      - ${arg}`)\<close> on the elements of an array: the first conversion
  that throws ends it.
\<close>

fun bullet_lines :: "jsval list \<Rightarrow> error + string list" where
  "bullet_lines [] = Inr []"
| "bullet_lines (arg # args) =
     (case to_string arg of
        Inl e \<Rightarrow> Inl e
      | Inr s \<Rightarrow>
          (case bullet_lines args of
             Inl e \<Rightarrow> Inl e
           | Inr ls \<Rightarrow> Inr ((''      - '' @ s) # ls)))"

text \<open>
  \<^verbatim>\<open>generateConfigExample\<close> (lines 49-67). The template literal of line 61 converts the
  command and every element of \<open>args\<close> to a string, and \<^verbatim>\<open>serverInfo.args.map\<close> throws
  unless \<open>args\<close> is an array.
\<close>

definition generateConfigExample :: "string \<Rightarrow> jsval \<Rightarrow> error + (string \<times> string)" where
  "generateConfigExample serverName serverInfo =
     (case get_prop serverInfo ''command'' of
        Inl e \<Rightarrow> Inl e
      | Inr command \<Rightarrow>
     (case get_prop serverInfo ''args'' of
        Inl e \<Rightarrow> Inl e
      | Inr args \<Rightarrow>
          let serverConfig =
                JObj [(replace_first CHR ''@'' serverName,
                       JObj [(''command'', command), (''args'', args)])];
              claudeConfig = stringify_object [(''mcpServers'', serverConfig)]
          in (case to_string command of
                Inl e \<Rightarrow> Inl e
              | Inr command_text \<Rightarrow>
             (case args of
                JArr xs \<Rightarrow>
                  (case bullet_lines xs of
                     Inl e \<Rightarrow> Inl e
                   | Inr ls \<Rightarrow>
                       Inr (claudeConfig,
                            ''mcpServers:'' @ [CHR 0x0A] @ ''  ''
                              @ replace_first CHR ''@'' serverName
                              @ '':'' @ [CHR 0x0A] @ ''    command: '' @ command_text
                              @ [CHR 0x0A] @ ''    args:'' @ [CHR 0x0A]
                              @ join [CHR 0x0A] ls))
              | _ \<Rightarrow> Inl TypeError))))"

section \<open>The commands\<close>

text \<open>
  What a command does not compute itself comes from its environment: the process id of
  the child that \<^verbatim>\<open>spawn\<close> returns (none when the child could not be spawned: the \<^verbatim>\<open>pid\<close>
  of the child object is then \<^verbatim>\<open>undefined\<close>), the current time as an ISO string, whether
  \<^verbatim>\<open>process.kill\<close> returns or throws (and with which message), and the local rendering of
  a date. \<^verbatim>\<open>spawn\<close> itself is taken to return; the \<^verbatim>\<open>error\<close> event that Node.js emits for a
  failed spawn arrives after the command has run and is not part of the result.
\<close>

datatype kill_result = Killed | KillFailed string

record env =
  spawn_pid :: "jsval \<Rightarrow> jsval \<Rightarrow> int option"
  now_iso :: string
  kill :: "jsval \<Rightarrow> kill_result"
  locale_string :: "jsval \<Rightarrow> string"

datatype line = Stdout string | Stderr string

text \<open>
  The result of a command: the content of the registry file when it ends, the lines it
  printed (one per call of \<^verbatim>\<open>console.log\<close> or \<^verbatim>\<open>console.error\<close>), and the exception that
  ended it, if one did.
\<close>

record result =
  new_file :: string
  console :: "line list"
  thrown :: "error option"

definition returns :: "string \<Rightarrow> line list \<Rightarrow> result" where
  "returns file out = \<lparr>new_file = file, console = out, thrown = None\<rparr>"

definition throws :: "string \<Rightarrow> line list \<Rightarrow> error \<Rightarrow> result" where
  "throws file out e = \<lparr>new_file = file, console = out, thrown = Some e\<rparr>"

text \<open>A property read in the middle of a command, which ends the command when it throws.\<close>

definition reading :: "string \<Rightarrow> line list \<Rightarrow> jsval \<Rightarrow> string \<Rightarrow> (jsval \<Rightarrow> result) \<Rightarrow> result" where
  "reading file out v k cont =
     (case get_prop v k of Inl e \<Rightarrow> throws file out e | Inr x \<Rightarrow> cont x)"

text \<open>
  The string conversion of a value inside a template literal, which ends the command when
  it throws, before the line is printed.
\<close>

definition converting :: "string \<Rightarrow> line list \<Rightarrow> jsval \<Rightarrow> (string \<Rightarrow> result) \<Rightarrow> result" where
  "converting file out v cont =
     (case to_string v of Inl e \<Rightarrow> throws file out e | Inr s \<Rightarrow> cont s)"

text \<open>
  \<^verbatim>\<open>new Date(v).toLocaleString()\<close>. An object or an array is first converted to a primitive
  value, which throws where its string conversion throws. Every other value makes a date,
  possibly an invalid one, and the rendering of the date is the environment's.
\<close>

definition date_string :: "env \<Rightarrow> jsval \<Rightarrow> error + string" where
  "date_string env v =
     (case v of
        JArr xs \<Rightarrow>
          (case to_string v of Inl e \<Rightarrow> Inl e | Inr s \<Rightarrow> Inr (locale_string env v))
      | JObj ps \<Rightarrow>
          (case to_string v of Inl e \<Rightarrow> Inl e | Inr s \<Rightarrow> Inr (locale_string env v))
      | JNative f \<Rightarrow> Inl Unmodelled
      | _ \<Rightarrow> Inr (locale_string env v))"

text \<open>
  \<^verbatim>\<open>start <serverName>\<close> (lines 95-124). The file is written before the last line is
  printed.
\<close>

definition start_action :: "env \<Rightarrow> string \<Rightarrow> string \<Rightarrow> result" where
  "start_action env serverName file =
     (case getRunningServers file of
        Inl e \<Rightarrow> throws file [] e
      | Inr servers \<Rightarrow>
     (case servers of
        JObj ps \<Rightarrow>
          reading file [] servers serverName (\<lambda>running.
            if truthy running then
              reading file [] running ''pid'' (\<lambda>pid.
              converting file [] pid (\<lambda>pid_text.
                returns file
                  [Stdout (''Server '' @ serverName @ '' is already running (PID: ''
                           @ pid_text @ '')'')]))
            else
              let (logged, serverInfo) = fetchServerInfo serverName;
                  out = [Stdout logged, Stdout (''Starting '' @ serverName @ ''...'')]
              in reading file out serverInfo ''command'' (\<lambda>command.
                 reading file out serverInfo ''args'' (\<lambda>args.
                   let pid = (case spawn_pid env command args of
                                Some n \<Rightarrow> JNum n
                              | None \<Rightarrow> JUndefined);
                       servers' = assign_prop ps serverName
                         (JObj [(''pid'', pid),
                                (''startTime'', JStr (now_iso env)),
                                (''info'', serverInfo)])
                   in converting (saveRunningServers servers') out pid (\<lambda>pid_text.
                        returns (saveRunningServers servers')
                          (out @ [Stdout (''Server '' @ serverName
                                          @ '' started successfully (PID: '' @ pid_text
                                          @ '')'')])))))
      | _ \<Rightarrow> throws file [] Unmodelled))"

text \<open>
  \<^verbatim>\<open>stop <serverName>\<close> (lines 126-145). The \<^verbatim>\<open>try\<close> block reads the pid of a truthy value,
  which cannot throw, so \<^verbatim>\<open>process.kill\<close> is the one call whose exception is caught.
\<close>

definition stop_action :: "env \<Rightarrow> string \<Rightarrow> string \<Rightarrow> result" where
  "stop_action env serverName file =
     (case getRunningServers file of
        Inl e \<Rightarrow> throws file [] e
      | Inr servers \<Rightarrow>
     (case servers of
        JObj ps \<Rightarrow>
          reading file [] servers serverName (\<lambda>running.
            if \<not> truthy running then
              returns file [Stdout (''Server '' @ serverName @ '' is not running'')]
            else
              reading file [] running ''pid'' (\<lambda>pid.
                case kill env pid of
                  Killed \<Rightarrow>
                    returns (saveRunningServers (delete_prop ps serverName))
                      [Stdout (''Server '' @ serverName @ '' stopped successfully'')]
                | KillFailed message \<Rightarrow>
                    returns file
                      [Stderr (''Failed to stop server '' @ serverName @ '': '' @ message)]))
      | _ \<Rightarrow> throws file [] Unmodelled))"

text \<open>\<^verbatim>\<open>status <serverName>\<close> (lines 147-177).\<close>

definition status_action :: "string \<Rightarrow> string \<Rightarrow> result" where
  "status_action serverName file =
     (case getRunningServers file of
        Inl e \<Rightarrow> throws file [] e
      | Inr servers \<Rightarrow>
          reading file [] servers serverName (\<lambda>server.
            if \<not> truthy server then
              returns file [Stdout (''Server '' @ serverName @ '' is not running'')]
            else
              let out2 = [Stdout (''Server: '' @ serverName), Stdout ''Status: Running'']
              in reading file out2 server ''pid'' (\<lambda>pid.
                 converting file out2 pid (\<lambda>pid_text.
              let out3 = out2 @ [Stdout (''PID: '' @ pid_text)]
              in reading file out3 server ''startTime'' (\<lambda>startTime.
                 converting file out3 startTime (\<lambda>startTime_text.
              let out4 = out3 @ [Stdout (''Started: '' @ startTime_text)]
              in reading file out4 server ''info'' (\<lambda>info.
                 reading file out4 info ''description'' (\<lambda>description.
                 converting file out4 description (\<lambda>description_text.
              let out5 = out4 @ [Stdout (''Description: '' @ description_text)]
              in reading file out5 info ''version'' (\<lambda>version.
                 converting file out5 version (\<lambda>version_text.
              let out6 = out5 @ [Stdout (''Version: '' @ version_text)]
              in (case generateConfigExample serverName info of
                    Inl e \<Rightarrow> throws file out6 e
                  | Inr (claude, libre) \<Rightarrow>
                      returns file
                        (out6 @
                         [Stdout (CHR 0x0A # ''To configure in Claude Desktop:''),
                          Stdout ''------------------------------'',
                          Stdout ''Edit your claude_desktop_config.json:'',
                          Stdout claude,
                          Stdout (CHR 0x0A # ''To configure in LibreChat:''),
                          Stdout ''-------------------------'',
                          Stdout ''Add to your LibreChat YAML configuration:'',
                          Stdout libre])))))))))))))"

text \<open>\<^verbatim>\<open>list\<close> (lines 179-198): the body of \<^verbatim>\<open>forEach\<close>, name by name.\<close>

fun list_each :: "env \<Rightarrow> string \<Rightarrow> jsval \<Rightarrow> line list \<Rightarrow> string list \<Rightarrow> result" where
  "list_each env file servers out [] = returns file out"
| "list_each env file servers out (name # names) =
     (case get_prop servers name of
        Inl e \<Rightarrow> throws file out e
      | Inr server \<Rightarrow>
     (case get_prop server ''pid'' of
        Inl e \<Rightarrow> throws file out e
      | Inr pid \<Rightarrow>
     (case to_string pid of
        Inl e \<Rightarrow> throws file out e
      | Inr pid_text \<Rightarrow>
     (case get_prop server ''startTime'' of
        Inl e \<Rightarrow> throws file out e
      | Inr startTime \<Rightarrow>
     (case date_string env startTime of
        Inl e \<Rightarrow> throws file out e
      | Inr started \<Rightarrow>
          list_each env file servers
            (out @ [Stdout (name @ '' (PID: '' @ pid_text @ '', Started: ''
                            @ started @ '')'')])
            names)))))"

definition list_action :: "env \<Rightarrow> string \<Rightarrow> result" where
  "list_action env file =
     (case getRunningServers file of
        Inl e \<Rightarrow> throws file [] e
      | Inr servers \<Rightarrow>
     (case servers of
        JObj ps \<Rightarrow>
          let serverNames = map fst ps
          in if length serverNames = 0 then
               returns file [Stdout ''No MCP servers are currently running'']
             else
               list_each env file servers
                 [Stdout ''Running MCP Servers:'', Stdout ''-------------------'']
                 serverNames
      | _ \<Rightarrow> throws file [] Unmodelled))"

section \<open>An example\<close>

text \<open>
  The scenario of the specification: \<open>alice/demo\<close> has been started as process 4242. The
  example environment spawns that process, its \<^verbatim>\<open>process.kill\<close> fails for every pid
  but 4242, and it renders a date given as a string by that string.
\<close>

definition example_env :: env where
  "example_env =
     \<lparr>spawn_pid = (\<lambda>command args. Some 4242),
      now_iso = ''2024-01-01T00:00:00.000Z'',
      kill = (\<lambda>pid. if pid = JNum 4242 then Killed else KillFailed ''kill ESRCH''),
      locale_string = (\<lambda>v. case v of JStr s \<Rightarrow> s | _ \<Rightarrow> ''Invalid Date'')\<rparr>"

definition example_record :: "(string \<times> jsval) list" where
  "example_record =
     [(''pid'', JNum 4242),
      (''startTime'', JStr ''2024-01-01T00:00:00.000Z''),
      (''info'', snd (fetchServerInfo ''alice/demo''))]"

definition example_registry :: "(string \<times> jsval) list" where
  "example_registry = [(''alice/demo'', JObj example_record)]"

section \<open>Notions for stating the properties\<close>

subsection \<open>Text\<close>

text \<open>What may follow a number literal in the text: anything that does not extend it.\<close>

definition ends_number :: "string \<Rightarrow> bool" where
  "ends_number rest =
     (case rest of [] \<Rightarrow> True
      | r # _ \<Rightarrow> \<not> is_digit r \<and> r \<noteq> CHR ''.'' \<and> r \<noteq> CHR ''e'' \<and> r \<noteq> CHR ''E'')"

text \<open>How the text of a value starts: not with white space and not with a closing bracket.\<close>

definition starts_value :: "string \<Rightarrow> bool" where
  "starts_value s = (case s of [] \<Rightarrow> False | c # _ \<Rightarrow> \<not> is_ws c \<and> c \<noteq> CHR '']'')"

text \<open>
  The states of the parser whose values can all be carried by JSON text: the value just
  read, the properties collected so far, and the same for every frame of the stack.
\<close>

definition frame_ok :: "frame \<Rightarrow> bool" where
  "frame_ok fr =
     (case fr of FArr acc \<Rightarrow> list_all json_value acc | FObj ps k \<Rightarrow> json_value (JObj ps))"

definition mode_ok :: "mode \<Rightarrow> bool" where
  "mode_ok m =
     (case m of
        MKey ps \<Rightarrow> json_value (JObj ps)
      | MColon ps k \<Rightarrow> json_value (JObj ps)
      | MAfter v \<Rightarrow> json_value v
      | _ \<Rightarrow> True)"

subsection \<open>Records\<close>

text \<open>The own property \<open>k\<close> of a record, \<^verbatim>\<open>undefined\<close> when it has none.\<close>

definition stored :: "(string \<times> jsval) list \<Rightarrow> string \<Rightarrow> jsval" where
  "stored rec k = (case map_of rec k of Some x \<Rightarrow> x | None \<Rightarrow> JUndefined)"

text \<open>
  A value that a template literal can print: its string conversion does not throw (and
  is inside the model). Every string, boolean and safe integer is one, and so are
  \<^verbatim>\<open>null\<close> and \<^verbatim>\<open>undefined\<close>; an object with an own property \<^verbatim>\<open>toString\<close> is not. \<open>shown v\<close>
  is the string printed for such a value.
\<close>

definition printable :: "jsval \<Rightarrow> bool" where
  "printable v = (case to_string v of Inl e \<Rightarrow> False | Inr s \<Rightarrow> True)"

definition shown :: "jsval \<Rightarrow> string" where
  "shown v = (case to_string v of Inl e \<Rightarrow> [] | Inr s \<Rightarrow> s)"

text \<open>
  A registry whose entries are record objects, given by the own properties of each
  record; when the pid and the start time of each can be printed; and the line that
  \<open>list\<close> prints for one entry.
\<close>

definition records :: "(string \<times> (string \<times> jsval) list) list \<Rightarrow> (string \<times> jsval) list" where
  "records es = map (\<lambda>(name, rec). (name, JObj rec)) es"

definition listable :: "(string \<times> (string \<times> jsval) list) list \<Rightarrow> bool" where
  "listable es =
     list_all
       (\<lambda>e. printable (stored (snd e) ''pid'') \<and> printable (stored (snd e) ''startTime''))
       es"

definition entry_line :: "env \<Rightarrow> string \<times> (string \<times> jsval) list \<Rightarrow> line" where
  "entry_line env e =
     Stdout (fst e @ '' (PID: '' @ shown (stored (snd e) ''pid'') @ '', Started: ''
             @ locale_string env (stored (snd e) ''startTime'') @ '')'')"

subsection \<open>Snippets\<close>

text \<open>
  The text of the second snippet, as line 61 builds it from a command that is a string
  and args that are strings.
\<close>

definition libre_snippet :: "string \<Rightarrow> string \<Rightarrow> string list \<Rightarrow> string" where
  "libre_snippet serverName command args =
     ''mcpServers:'' @ [CHR 0x0A] @ ''  '' @ replace_first CHR ''@'' serverName
       @ '':'' @ [CHR 0x0A] @ ''    command: '' @ command
       @ [CHR 0x0A] @ ''    args:'' @ [CHR 0x0A]
       @ join [CHR 0x0A] (map (\<lambda>arg. ''      - '' @ arg) args)"

text \<open>The object of the first snippet, for a given key.\<close>

definition claude_object :: "string \<Rightarrow> jsval \<Rightarrow> jsval list \<Rightarrow> (string \<times> jsval) list" where
  "claude_object key command args =
     [(''mcpServers'', JObj [(key, JObj [(''command'', command), (''args'', JArr args)])])]"

text \<open>A registry whose one name holds a second \<open>@\<close>.\<close>

definition versioned_registry :: "(string \<times> jsval) list" where
  "versioned_registry = [(''@alice/demo@1.0.0'', JObj example_record)]"

subsection \<open>Registries that the commands write\<close>

definition is_record :: "jsval \<Rightarrow> bool" where
  "is_record v = (case v of JObj rec \<Rightarrow> True | _ \<Rightarrow> False)"

text \<open>
  What holds of every registry that the commands have written: it can be carried by JSON
  text, none of its keys is a name that objects inherit, and every entry is a record
  object.
\<close>

definition tool_registry :: "(string \<times> jsval) list \<Rightarrow> bool" where
  "tool_registry reg =
     (json_value (JObj reg)
      \<and> list_all (\<lambda>p. object_prototype (fst p) = None \<and> is_record (snd p)) reg)"

text \<open>
  The files that the commands can leave behind, from the file that the start-up code
  creates. \<open>status\<close> and \<open>list\<close> never write the file.
\<close>

inductive reachable :: "string \<Rightarrow> bool" where
  fresh: "reachable (initial_file None)"
| started: "reachable file \<Longrightarrow> reachable (new_file (start_action env serverName file))"
| stopped: "reachable file \<Longrightarrow> reachable (new_file (stop_action env serverName file))"

text \<open>The pid that \<open>start\<close> records and prints.\<close>

definition child_pid :: "env \<Rightarrow> string \<Rightarrow> jsval" where
  "child_pid env serverName =
     (case spawn_pid env (JStr ''npx'') (JArr [JStr ''-y'', JStr serverName]) of
        Some n \<Rightarrow> JNum n
      | None \<Rightarrow> JUndefined)"

definition new_record :: "env \<Rightarrow> string \<Rightarrow> jsval" where
  "new_record env serverName =
     JObj [(''pid'', child_pid env serverName),
           (''startTime'', JStr (now_iso env)),
           (''info'', snd (fetchServerInfo serverName))]"

text \<open>What the file keeps of the record that \<open>start\<close> stores: no pid when there is none.\<close>

definition written_record :: "env \<Rightarrow> string \<Rightarrow> jsval" where
  "written_record env serverName =
     (case spawn_pid env (JStr ''npx'') (JArr [JStr ''-y'', JStr serverName]) of
        Some n \<Rightarrow> new_record env serverName
      | None \<Rightarrow>
          JObj [(''startTime'', JStr (now_iso env)),
                (''info'', snd (fetchServerInfo serverName))])"

section \<open>Writing and reading JSON text\<close>

subsection \<open>Strings\<close>

lemma hex_val_hex_digit: "d < 16 \<Longrightarrow> hex_val (hex_digit d) = Some d"
  by (auto simp: hex_val_def hex_digit_def Let_def)

lemma hex4_control:
  assumes "n < 32"
  shows "hex4 CHR ''0'' CHR ''0'' (hex_digit (n div 16)) (hex_digit (n mod 16)) = Some n"
proof -
  have a: "hex_val (hex_digit (n div 16)) = Some (n div 16)"
    using assms by (intro hex_val_hex_digit) simp
  have b: "hex_val (hex_digit (n mod 16)) = Some (n mod 16)"
    by (intro hex_val_hex_digit) simp
  have c: "hex_val CHR ''0'' = Some 0"
    by (simp add: hex_val_def)
  show ?thesis by (simp add: hex4_def a b c)
qed

lemma str_body_escape_char: "str_body (escape_char c @ t) = cons_char c (str_body t)"
proof -
  consider "c = CHR 0x08" | "c = CHR 0x09" | "c = CHR 0x0A" | "c = CHR 0x0C" | "c = CHR 0x0D"
    | "c = CHR 0x22" | "c = CHR 0x5C"
    | "c \<noteq> CHR 0x08" "c \<noteq> CHR 0x09" "c \<noteq> CHR 0x0A" "c \<noteq> CHR 0x0C" "c \<noteq> CHR 0x0D"
      "c \<noteq> CHR 0x22" "c \<noteq> CHR 0x5C" "(of_char c :: nat) < 32"
    | "c \<noteq> CHR 0x08" "c \<noteq> CHR 0x09" "c \<noteq> CHR 0x0A" "c \<noteq> CHR 0x0C" "c \<noteq> CHR 0x0D"
      "c \<noteq> CHR 0x22" "c \<noteq> CHR 0x5C" "\<not> (of_char c :: nat) < 32"
    by blast
  then show ?thesis
  proof cases
    case 8
    then show ?thesis
      by (simp add: escape_char_def hex4_control)
  next
    case 9
    then show ?thesis
      by (simp add: escape_char_def)
  qed (simp_all add: escape_char_def unescape_def)
qed

lemma str_body_quoted:
  "str_body (concat (map escape_char s) @ CHR 0x22 # rest) = Inr (s, rest)"
  by (induction s) (simp_all add: str_body_escape_char cons_char_def)

subsection \<open>Numbers\<close>

lemma is_digit_digit_char: "d < 10 \<Longrightarrow> is_digit (digit_char d)"
  by (simp add: is_digit_def digit_char_def)

lemma digit_val_digit_char: "d < 10 \<Longrightarrow> digit_val (digit_char d) = d"
  by (simp add: digit_val_def digit_char_def)

lemma digit_char_zero: "d < 10 \<Longrightarrow> digit_char d = CHR ''0'' \<longleftrightarrow> d = 0"
proof
  assume "d < 10" "digit_char d = CHR ''0''"
  then have "digit_val (digit_char d) = digit_val (CHR ''0'')" by simp
  with \<open>d < 10\<close> show "d = 0" by (simp add: digit_val_digit_char) (simp add: digit_val_def)
next
  assume "d = 0" then show "digit_char d = CHR ''0''" by (simp add: digit_char_def char_of_eq_iff)
qed

lemma show_nat_digits: "list_all is_digit (show_nat n)"
proof (induction n rule: show_nat.induct)
  case (1 n)
  then show ?case
    by (subst show_nat.simps) (simp add: is_digit_digit_char)
qed

lemma show_nat_nonempty: "show_nat n \<noteq> []"
  by (subst show_nat.simps) simp

lemma nat_of_digits_snoc: "nat_of_digits (ds @ [c]) = 10 * nat_of_digits ds + digit_val c"
  by (simp add: nat_of_digits_def)

lemma nat_of_digits_show_nat: "nat_of_digits (show_nat n) = n"
proof (induction n rule: show_nat.induct)
  case (1 n)
  show ?case
  proof (cases "n < 10")
    case True
    then show ?thesis
      by (subst show_nat.simps) (simp add: nat_of_digits_def digit_val_digit_char)
  next
    case False
    with 1 show ?thesis
      by (subst show_nat.simps) (simp add: nat_of_digits_snoc digit_val_digit_char)
  qed
qed

lemma hd_show_nat: "hd (show_nat n) = CHR ''0'' \<longleftrightarrow> n = 0"
proof (induction n rule: show_nat.induct)
  case (1 n)
  show ?case
  proof (cases "n < 10")
    case True
    then show ?thesis
      by (subst show_nat.simps) (simp add: digit_char_zero)
  next
    case False
    then have "hd (show_nat n) = hd (show_nat (n div 10))"
      by (subst show_nat.simps) (simp add: show_nat_nonempty)
    with 1 False show ?thesis by simp
  qed
qed

lemma takeWhile_digits:
  "list_all is_digit ds \<Longrightarrow> ends_number rest \<Longrightarrow> takeWhile is_digit (ds @ rest) = ds"
  by (induction ds) (auto simp: ends_number_def split: list.splits)

lemma dropWhile_digits:
  "list_all is_digit ds \<Longrightarrow> ends_number rest \<Longrightarrow> dropWhile is_digit (ds @ rest) = rest"
  by (induction ds) (auto simp: ends_number_def split: list.splits)

lemma not_digit_minus: "\<not> is_digit CHR ''-''"
  by (simp add: is_digit_def)

lemma parse_number_digits:
  assumes dig: "list_all is_digit (d # t)" and zero: "d = CHR ''0'' \<Longrightarrow> t = []"
    and en: "ends_number rest"
  shows "parse_number (d # t @ rest) = Inr (int (nat_of_digits (d # t)), rest)"
    and "parse_number (CHR ''-'' # d # t @ rest) = Inr (- int (nat_of_digits (d # t)), rest)"
proof -
  have d: "is_digit d" "d \<noteq> CHR ''-''" and t: "list_all is_digit t"
    using dig not_digit_minus by auto
  have en': "(case rest of [] \<Rightarrow> True
      | r # _ \<Rightarrow> \<not> is_digit r \<and> r \<noteq> CHR ''.'' \<and> r \<noteq> CHR ''e'' \<and> r \<noteq> CHR ''E'')"
    using en by (simp add: ends_number_def)
  show "parse_number (d # t @ rest) = Inr (int (nat_of_digits (d # t)), rest)"
    using d t zero en en'
    by (auto simp: parse_number_def Let_def takeWhile_digits dropWhile_digits list_all_iff
        split: list.splits)
  show "parse_number (CHR ''-'' # d # t @ rest) = Inr (- int (nat_of_digits (d # t)), rest)"
    using d t zero en en'
    by (auto simp: parse_number_def Let_def takeWhile_digits dropWhile_digits list_all_iff
        split: list.splits)
qed

lemma parse_number_show_int:
  assumes "ends_number rest"
  shows "parse_number (show_int i @ rest) = Inr (i, rest)"
proof -
  define n where "n = nat \<bar>i\<bar>"
  obtain d t where dt: "show_nat n = d # t"
    using show_nat_nonempty [of n] by (cases "show_nat n") auto
  have dig: "list_all is_digit (d # t)"
    using show_nat_digits [of n] dt by simp
  have val: "nat_of_digits (d # t) = n"
    using nat_of_digits_show_nat [of n] dt by simp
  have zero: "t = []" if "d = CHR ''0''"
  proof -
    from that have "n = 0" using hd_show_nat [of n] dt by simp
    then have "show_nat n = ''0''" by (subst show_nat.simps) (simp add: digit_char_zero)
    with dt show ?thesis by simp
  qed
  note pn = parse_number_digits [OF dig zero assms]
  show ?thesis
  proof (cases "i < 0")
    case True
    then have "show_int i = CHR ''-'' # d # t"
      using dt by (simp add: show_int_def n_def)
    with pn(2) val True show ?thesis by (simp add: n_def)
  next
    case False
    then have "show_int i = d # t"
      using dt by (simp add: show_int_def n_def)
    with pn(1) val False show ?thesis by (simp add: n_def)
  qed
qed

subsection \<open>Key order\<close>

lemma insert_index_last:
  "\<forall>k' \<in> fst ` set ps. is_index k' \<and> nat_of_digits k' < nat_of_digits k \<Longrightarrow>
     insert_index k v ps = ps @ [(k, v)]"
  by (induction ps) auto

lemma define_prop_last:
  assumes "own_keys (map fst ps @ [k])"
  shows "define_prop k v ps = ps @ [(k, v)]"
proof -
  from assms have new: "k \<notin> fst ` set ps" and ord: "\<forall>k' \<in> fst ` set ps. key_before k' k"
    by (auto simp: own_keys_def sorted_wrt_append)
  show ?thesis
  proof (cases "is_index k")
    case True
    with ord have "\<forall>k' \<in> fst ` set ps. is_index k' \<and> nat_of_digits k' < nat_of_digits k"
      by (simp add: key_before_def)
    with new True show ?thesis
      by (simp add: define_prop_def insert_index_last)
  next
    case False
    with new show ?thesis by (simp add: define_prop_def)
  qed
qed

lemma own_keys_prefix: "own_keys (ks @ ks') \<Longrightarrow> own_keys ks"
  by (auto simp: own_keys_def sorted_wrt_append)

subsection \<open>Steps of the parser on the text of a value\<close>

lemma run_ws: "is_ws c \<Longrightarrow> run m stk (c # s) = run m stk s"
  by (simp add: step_def)

lemma run_skip: "list_all is_ws w \<Longrightarrow> run m stk (w @ s) = run m stk s"
  by (induction w) (simp_all add: step_def)

lemma ws_newline: "is_ws (CHR 0x0A)"
  by (simp add: is_ws_def)

lemma ws_gap: "list_all is_ws gap"
  by (simp add: gap_def is_ws_def)

lemma starts_value_append: "starts_value s \<Longrightarrow> starts_value (s @ t)"
  by (cases s) (simp_all add: starts_value_def)

lemma digit_starts_value: "is_digit c \<Longrightarrow> starts_value (c # s)"
  by (auto simp: starts_value_def is_digit_def is_ws_def)

lemma show_int_starts_value: "starts_value (show_int i)"
proof -
  have "starts_value (show_nat n)" for n
    using show_nat_digits [of n] show_nat_nonempty [of n]
    by (cases "show_nat n") (auto simp: digit_starts_value)
  then show ?thesis
    by (auto simp: show_int_def) (simp add: starts_value_def is_ws_def)
qed

lemma wrap_starts_value: "l = CHR ''['' \<or> l = CHR ''{'' \<Longrightarrow> starts_value (wrap l r ind partial)"
  by (auto simp: wrap_def starts_value_def is_ws_def)

lemma ser_starts_value: "ser ind v = Some s \<Longrightarrow> starts_value s"
  by (cases v)
    (auto simp: show_int_starts_value wrap_starts_value quote_def, 
     auto simp: starts_value_def is_ws_def)

lemma run_array_start:
  "starts_value s \<Longrightarrow> run MArrStart stk s = run MValue (FArr [] # stk) s"
  by (cases s) (auto simp: starts_value_def step_def)

lemma run_object_start: "run MObjStart stk (CHR 0x22 # s) = run (MKey []) stk (CHR 0x22 # s)"
  by (simp add: step_def is_ws_def)

lemma run_string: "run MValue stk (quote s @ rest) = run (MAfter (JStr s)) stk rest"
  by (simp add: quote_def step_def is_ws_def begin_value_def str_body_quoted)

lemma run_key: "run (MKey ps) stk (quote k @ CHR '':'' # CHR '' '' # rest)
    = run MValue (FObj ps k # stk) rest"
  by (simp add: quote_def step_def is_ws_def begin_key_def str_body_quoted)

lemma show_int_Cons: "\<exists>c cs. show_int i = c # cs \<and> (c = CHR ''-'' \<or> is_digit c)"
  using show_nat_digits [of "nat i"] show_nat_nonempty [of "nat i"]
  by (cases "show_nat (nat i)") (auto simp: show_int_def)

lemma digit_not_ws: "is_digit c \<Longrightarrow> \<not> is_ws c"
  by (auto simp: is_digit_def is_ws_def)

lemma digit_not_punct:
  "is_digit c \<Longrightarrow> c \<noteq> CHR ''{'' \<and> c \<noteq> CHR ''['' \<and> c \<noteq> CHR 0x22"
  by (auto simp: is_digit_def)

lemma run_number:
  assumes "ends_number rest"
  shows "run MValue stk (show_int i @ rest) = run (MAfter (JNum i)) stk rest"
proof -
  obtain c cs where c: "show_int i = c # cs" "c = CHR ''-'' \<or> is_digit c"
    using show_int_Cons by blast
  have pn: "parse_number (c # cs @ rest) = Inr (i, rest)"
    using parse_number_show_int [OF assms, of i] c by simp
  have nws: "\<not> is_ws c"
    using c(2) digit_not_ws by (auto simp: is_ws_def)
  have np: "c \<noteq> CHR ''{''" "c \<noteq> CHR ''[''" "c \<noteq> CHR 0x22"
    using c(2) digit_not_punct by auto
  have "step MValue stk c (cs @ rest) = Inr (MAfter (JNum i), stk, rest)"
    using nws np c(2) pn by (simp add: step_def begin_value_def)
  then show ?thesis by (simp add: c)
qed

lemma run_null: "run MValue stk (''null'' @ rest) = run (MAfter JNull) stk rest"
  by (simp add: step_def is_ws_def begin_value_def is_digit_def)

lemma run_true: "run MValue stk (''true'' @ rest) = run (MAfter (JBool True)) stk rest"
  by (simp add: step_def is_ws_def begin_value_def is_digit_def)

lemma run_false: "run MValue stk (''false'' @ rest) = run (MAfter (JBool False)) stk rest"
  by (simp add: step_def is_ws_def begin_value_def is_digit_def)

lemma run_open_array: "run MValue stk (CHR ''['' # s) = run MArrStart stk s"
  by (simp add: step_def is_ws_def begin_value_def)

lemma run_open_object: "run MValue stk (CHR ''{'' # s) = run MObjStart stk s"
  by (simp add: step_def is_ws_def begin_value_def)

lemma run_empty_array: "run MArrStart stk (CHR '']'' # s) = run (MAfter (JArr [])) stk s"
  by (simp add: step_def is_ws_def)

lemma run_empty_object: "run MObjStart stk (CHR ''}'' # s) = run (MAfter (JObj [])) stk s"
  by (simp add: step_def is_ws_def)

lemma run_next_elem:
  "run (MAfter v) (FArr acc # stk) (CHR '','' # s) = run MValue (FArr (v # acc) # stk) s"
  by (simp add: step_def is_ws_def)

lemma run_close_array:
  "run (MAfter v) (FArr acc # stk) (CHR '']'' # s) = run (MAfter (JArr (rev (v # acc)))) stk s"
  by (simp add: step_def is_ws_def)

lemma run_next_prop:
  "run (MAfter v) (FObj ps k # stk) (CHR '','' # s) = run (MKey (define_prop k v ps)) stk s"
  by (simp add: step_def is_ws_def)

lemma run_close_object:
  "run (MAfter v) (FObj ps k # stk) (CHR ''}'' # s)
     = run (MAfter (JObj (define_prop k v ps))) stk s"
  by (simp add: step_def is_ws_def)

lemma ends_number_comma: "ends_number (CHR '','' # s)"
  by (simp add: ends_number_def is_digit_def)

lemma ends_number_newline: "ends_number (CHR 0x0A # s)"
  by (simp add: ends_number_def is_digit_def)

lemma join_Cons: "join sep (x # xs) = (if xs = [] then x else x @ sep @ join sep xs)"
  by (cases xs) simp_all

lemma ser_elems_empty: "ser_elems ind xs = [] \<longleftrightarrow> xs = []"
  by (cases xs) simp_all

lemma json_value_ser: "json_value v \<Longrightarrow> \<exists>s. ser ind v = Some s"
  by (cases v) simp_all

lemma ser_props_empty: "json_props ps \<Longrightarrow> ser_props ind ps = [] \<longleftrightarrow> ps = []"
proof (cases ps)
  case Nil
  then show ?thesis by simp
next
  case (Cons p ps')
  assume "json_props ps"
  with Cons obtain s where "ser ind (snd p) = Some s"
    using json_value_ser [of "snd p" ind] by (cases p) auto
  with Cons show ?thesis by (cases p) simp
qed

subsection \<open>Reading back what was written\<close>

declare run.simps(2) [simp del]

lemma parse_ser:
  shows "\<forall>s stk rest. json_value v \<longrightarrow> list_all is_ws ind \<longrightarrow> ends_number rest
           \<longrightarrow> ser ind v = Some s
           \<longrightarrow> run MValue stk (s @ rest) = run (MAfter v) stk rest"
    and "\<forall>acc stk ind0 rest. json_elems xs \<longrightarrow> list_all is_ws ind1 \<longrightarrow> list_all is_ws ind0
           \<longrightarrow> xs \<noteq> []
           \<longrightarrow> run MValue (FArr acc # stk)
                 (join ([CHR '','', CHR 0x0A] @ ind1) (ser_elems ind1 xs)
                    @ CHR 0x0A # ind0 @ CHR '']'' # rest)
               = run (MAfter (JArr (rev acc @ xs))) stk rest"
    and "\<forall>acc stk ind0 rest. json_props ps \<longrightarrow> own_keys (map fst (acc @ ps))
           \<longrightarrow> list_all is_ws ind2 \<longrightarrow> list_all is_ws ind0 \<longrightarrow> ps \<noteq> []
           \<longrightarrow> run (MKey acc) stk
                 (join ([CHR '','', CHR 0x0A] @ ind2) (ser_props ind2 ps)
                    @ CHR 0x0A # ind0 @ CHR ''}'' # rest)
               = run (MAfter (JObj (acc @ ps))) stk rest"
proof (induction ind v and ind1 xs and ind2 ps rule: ser_ser_elems_ser_props.induct)
  case (1 ind)
  then show ?case by simp
next
  case (2 ind f)
  then show ?case by simp
next
  case (3 ind)
  then show ?case using run_null by auto
next
  case (4 ind b)
  then show ?case using run_true run_false by auto
next
  case (5 ind n)
  then show ?case using run_number by auto
next
  case (6 ind s)
  then show ?case using run_string by auto
next
  case (7 ind xs)
  show ?case
  proof (intro allI impI)
    fix s stk rest
    assume j: "json_value (JArr xs)" and w: "list_all is_ws ind" and s: "ser ind (JArr xs) = Some s"
    show "run MValue stk (s @ rest) = run (MAfter (JArr xs)) stk rest"
    proof (cases "xs = []")
      case True
      with s show ?thesis
        by (auto simp: wrap_def run_open_array run_empty_array)
    next
      case False
      let ?body = "join ([CHR '','', CHR 0x0A] @ ind @ gap) (ser_elems (ind @ gap) xs)
                     @ CHR 0x0A # ind @ CHR '']'' # rest"
      from False s have shape: "s @ rest = CHR ''['' # (CHR 0x0A # ind @ gap) @ ?body"
        by (auto simp: wrap_def ser_elems_empty)
      have skip: "list_all is_ws (CHR 0x0A # ind @ gap)"
        using w ws_gap ws_newline by simp
      obtain x xs' where xs: "xs = x # xs'" using False by (cases xs) auto
      obtain sx where sx: "ser (ind @ gap) x = Some sx"
        using j xs json_value_ser by fastforce
      have "starts_value ?body"
        using ser_starts_value [OF sx] sx xs
        by (auto simp: join_Cons intro: starts_value_append)
      then have "run MArrStart stk ?body = run MValue (FArr [] # stk) ?body"
        by (rule run_array_start)
      also have "\<dots> = run (MAfter (JArr xs)) stk rest"
        using 7 j w ws_gap False by simp
      finally show ?thesis
        unfolding shape run_open_array run_skip [OF skip] .
    qed
  qed
next
  case (8 ind ps)
  show ?case
  proof (intro allI impI)
    fix s stk rest
    assume j: "json_value (JObj ps)" and w: "list_all is_ws ind" and s: "ser ind (JObj ps) = Some s"
    from j have jp: "json_props ps" and ok: "own_keys (map fst ps)" by simp_all
    show "run MValue stk (s @ rest) = run (MAfter (JObj ps)) stk rest"
    proof (cases "ps = []")
      case True
      with s show ?thesis
        by (auto simp: wrap_def run_open_object run_empty_object)
    next
      case False
      let ?body = "join ([CHR '','', CHR 0x0A] @ ind @ gap) (ser_props (ind @ gap) ps)
                     @ CHR 0x0A # ind @ CHR ''}'' # rest"
      from False s jp have shape: "s @ rest = CHR ''{'' # (CHR 0x0A # ind @ gap) @ ?body"
        by (auto simp: wrap_def ser_props_empty)
      have skip: "list_all is_ws (CHR 0x0A # ind @ gap)"
        using w ws_gap ws_newline by simp
      obtain k x ps' where ps: "ps = (k, x) # ps'" using False by (cases ps) auto
      obtain sx where sx: "ser (ind @ gap) x = Some sx"
        using jp ps json_value_ser by fastforce
      have "\<exists>t. ?body = CHR 0x22 # t"
        using sx ps by (auto simp: join_Cons quote_def)
      then obtain t where t: "?body = CHR 0x22 # t" by blast
      have "run MObjStart stk ?body = run (MKey []) stk ?body"
        unfolding t by (rule run_object_start)
      also have "\<dots> = run (MAfter (JObj ps)) stk rest"
        using 8 [rule_format, of "[]" ind stk rest] jp ok w ws_gap False by simp
      finally show ?thesis
        unfolding shape run_open_object run_skip [OF skip] .
    qed
  qed
next
  case (9 ind)
  then show ?case by simp
next
  case (10 ind x xs)
  show ?case
  proof (intro allI impI)
    fix acc stk ind0 rest
    assume j: "json_elems (x # xs)" and w: "list_all is_ws ind" and w0: "list_all is_ws ind0"
    from j have jx: "json_value x" and jxs: "json_elems xs" by simp_all
    obtain sx where sx: "ser ind x = Some sx"
      using jx json_value_ser by blast
    note ih_value = 10(1) [rule_format, OF jx w _ sx]
    let ?close = "CHR 0x0A # ind0 @ CHR '']'' # rest"
    show "run MValue (FArr acc # stk)
            (join ([CHR '','', CHR 0x0A] @ ind) (ser_elems ind (x # xs)) @ ?close)
          = run (MAfter (JArr (rev acc @ x # xs))) stk rest"
    proof (cases "xs = []")
      case True
      have "run MValue (FArr acc # stk) (sx @ ?close) = run (MAfter x) (FArr acc # stk) ?close"
        by (rule ih_value [OF ends_number_newline])
      also have "\<dots> = run (MAfter x) (FArr acc # stk) (CHR '']'' # rest)"
        using run_skip [of "CHR 0x0A # ind0"] w0 ws_newline by simp
      also have "\<dots> = run (MAfter (JArr (rev acc @ [x]))) stk rest"
        by (simp add: run_close_array)
      finally show ?thesis using True sx by simp
    next
      case False
      let ?more = "join ([CHR '','', CHR 0x0A] @ ind) (ser_elems ind xs) @ ?close"
      have shape: "join ([CHR '','', CHR 0x0A] @ ind) (ser_elems ind (x # xs)) @ ?close
                  = sx @ CHR '','' # (CHR 0x0A # ind) @ ?more"
        using False sx by (simp add: join_Cons ser_elems_empty)
      have "run MValue (FArr acc # stk) (sx @ CHR '','' # (CHR 0x0A # ind) @ ?more)
            = run (MAfter x) (FArr acc # stk) (CHR '','' # (CHR 0x0A # ind) @ ?more)"
        by (rule ih_value [OF ends_number_comma])
      also have "\<dots> = run MValue (FArr (x # acc) # stk) ((CHR 0x0A # ind) @ ?more)"
        by (rule run_next_elem)
      also have "\<dots> = run MValue (FArr (x # acc) # stk) ?more"
        using w ws_newline by (intro run_skip) simp
      also have "\<dots> = run (MAfter (JArr (rev (x # acc) @ xs))) stk rest"
        using 10(2) jxs w w0 False by simp
      finally show ?thesis unfolding shape by simp
    qed
  qed
next
  case (11 ind)
  then show ?case by simp
next
  case (12 ind k v ps)
  show ?case
  proof (intro allI impI)
    fix acc stk ind0 rest
    assume j: "json_props ((k, v) # ps)" and ok: "own_keys (map fst (acc @ (k, v) # ps))"
      and w: "list_all is_ws ind" and w0: "list_all is_ws ind0"
    from j have jv: "json_value v" and jps: "json_props ps" by simp_all
    obtain sv where sv: "ser ind v = Some sv"
      using jv json_value_ser by blast
    note ih_value = 12(1) [rule_format, OF jv w _ sv]
    have "own_keys (map fst acc @ [k])"
      using ok own_keys_prefix [of "map fst acc @ [k]" "map fst ps"] by simp
    then have dp: "define_prop k v acc = acc @ [(k, v)]"
      by (rule define_prop_last)
    let ?close = "CHR 0x0A # ind0 @ CHR ''}'' # rest"
    show "run (MKey acc) stk
            (join ([CHR '','', CHR 0x0A] @ ind) (ser_props ind ((k, v) # ps)) @ ?close)
          = run (MAfter (JObj (acc @ (k, v) # ps))) stk rest"
    proof (cases "ps = []")
      case True
      have "run (MKey acc) stk (quote k @ CHR '':'' # CHR '' '' # sv @ ?close)
            = run MValue (FObj acc k # stk) (sv @ ?close)"
        by (rule run_key)
      also have "\<dots> = run (MAfter v) (FObj acc k # stk) ?close"
        by (rule ih_value [OF ends_number_newline])
      also have "\<dots> = run (MAfter v) (FObj acc k # stk) (CHR ''}'' # rest)"
        using run_skip [of "CHR 0x0A # ind0"] w0 ws_newline by simp
      also have "\<dots> = run (MAfter (JObj (acc @ [(k, v)]))) stk rest"
        by (simp add: run_close_object dp)
      finally show ?thesis using True sv by simp
    next
      case False
      let ?more = "join ([CHR '','', CHR 0x0A] @ ind) (ser_props ind ps) @ ?close"
      have shape: "join ([CHR '','', CHR 0x0A] @ ind) (ser_props ind ((k, v) # ps)) @ ?close
                  = quote k @ CHR '':'' # CHR '' '' # sv @ CHR '','' # (CHR 0x0A # ind) @ ?more"
        using False sv j by (simp add: join_Cons ser_props_empty)
      have "run (MKey acc) stk
              (quote k @ CHR '':'' # CHR '' '' # sv @ CHR '','' # (CHR 0x0A # ind) @ ?more)
            = run MValue (FObj acc k # stk) (sv @ CHR '','' # (CHR 0x0A # ind) @ ?more)"
        by (rule run_key)
      also have "\<dots> = run (MAfter v) (FObj acc k # stk) (CHR '','' # (CHR 0x0A # ind) @ ?more)"
        by (rule ih_value [OF ends_number_comma])
      also have "\<dots> = run (MKey (acc @ [(k, v)])) stk ((CHR 0x0A # ind) @ ?more)"
        by (simp only: run_next_prop dp)
      also have "\<dots> = run (MKey (acc @ [(k, v)])) stk ?more"
        using w ws_newline by (intro run_skip) simp
      also have "\<dots> = run (MAfter (JObj ((acc @ [(k, v)]) @ ps))) stk rest"
        using 12(3) [OF sv, rule_format, of "acc @ [(k, v)]" ind0 stk rest] jps ok w w0 False
        by simp
      finally show ?thesis unfolding shape by simp
    qed
  qed
qed

lemma digit_char_eval:
  "digit_char 0 = CHR ''0''" "digit_char 1 = CHR ''1''" "digit_char 2 = CHR ''2''"
  "digit_char 3 = CHR ''3''" "digit_char 4 = CHR ''4''" "digit_char 5 = CHR ''5''"
  "digit_char 6 = CHR ''6''" "digit_char 7 = CHR ''7''" "digit_char 8 = CHR ''8''"
  "digit_char 9 = CHR ''9''"
  by (simp_all add: digit_char_def char_of_eq_iff)

subsection \<open>Two texts, written and read\<close>

text \<open>
  The text of a small registry, with its line breaks and indentation; and a compact text
  read back, whose array-index keys come out in ascending order.
\<close>

lemma stringify_example:
  "stringify_object [(''a/b'', JObj [(''pid'', JNum 42), (''args'', JArr [JStr ''-y''])])]
     = ''{'' @ [CHR 0x0A]
       @ ''  '' @ [CHR 0x22] @ ''a/b'' @ [CHR 0x22] @ '': {'' @ [CHR 0x0A]
       @ ''    '' @ [CHR 0x22] @ ''pid'' @ [CHR 0x22] @ '': 42,'' @ [CHR 0x0A]
       @ ''    '' @ [CHR 0x22] @ ''args'' @ [CHR 0x22] @ '': ['' @ [CHR 0x0A]
       @ ''      '' @ [CHR 0x22] @ ''-y'' @ [CHR 0x22] @ [CHR 0x0A]
       @ ''    ]'' @ [CHR 0x0A]
       @ ''  }'' @ [CHR 0x0A]
       @ ''}''"
  by (simp add: stringify_object_def wrap_def gap_def quote_def escape_char_def show_int_def
      show_nat.simps digit_char_eval)

lemma parse_example:
  "JSON_parse (''{'' @ [CHR 0x22] @ ''b'' @ [CHR 0x22] @ '':-1, '' @ [CHR 0x22] @ ''10''
                 @ [CHR 0x22] @ '': [true, null],'' @ [CHR 0x22] @ ''9'' @ [CHR 0x22] @ '':{} }'')
     = Inr (JObj [(''9'', JObj []), (''10'', JArr [JBool True, JNull]), (''b'', JNum (- 1))])"
  by (simp add: JSON_parse_def run.simps step_def is_ws_def begin_value_def begin_key_def
      parse_number_def is_digit_def nat_of_digits_def digit_val_def define_prop_def is_index_def
      unescape_def cons_char_def)

subsection \<open>Saving and loading\<close>

lemma stringify_object_ser: "ser [] (JObj ps) = Some (stringify_object ps)"
  by (simp add: stringify_object_def)

lemma JSON_stringify_object: "JSON_stringify (JObj ps) = Some (stringify_object ps)"
  by (simp add: JSON_stringify_def stringify_object_def)

lemma parse_stringify_object:
  assumes "json_value (JObj servers)"
  shows "getRunningServers (saveRunningServers servers) = Inr (JObj servers)"
proof -
  have "ends_number []" by (simp add: ends_number_def)
  with parse_ser(1) [rule_format, OF assms _ _ stringify_object_ser, of "[]" "[]"]
  show ?thesis
    by (simp add: getRunningServers_def saveRunningServers_def JSON_parse_def)
qed

lemma get_prop_record_field:
  "k \<in> set record_fields \<Longrightarrow> get_prop (JObj rec) k = Inr (stored rec k)"
  by (auto simp: get_prop_def stored_def object_prototype_def record_fields_def inherited_names_def
      split: option.splits)

lemma get_prop_own: "map_of ps k = Some x \<Longrightarrow> get_prop (JObj ps) k = Inr x"
  by (simp add: get_prop_def)

lemma pid_field: "''pid'' \<in> set record_fields"
  by (simp add: record_fields_def)

subsection \<open>Values that can be printed\<close>

lemma to_string_printable: "printable v \<Longrightarrow> to_string v = Inr (shown v)"
  by (simp add: printable_def shown_def split: sum.splits)

lemma printable_primitive:
  "printable JUndefined" "printable JNull" "printable (JBool b)" "printable (JStr s)"
  "printable (JNum n) = safe_integer n"
  by (simp_all add: printable_def)

lemma shown_primitive:
  "shown JUndefined = ''undefined''" "shown JNull = ''null''" "shown (JStr s) = s"
  "safe_integer n \<Longrightarrow> shown (JNum n) = show_int n"
  by (simp_all add: shown_def)

lemma printable_plain_object: "map_of ps ''toString'' = None \<Longrightarrow> printable (JObj ps)"
  by (simp add: printable_def)

text \<open>
  An object read from JSON text that has a property named \<^verbatim>\<open>toString\<close> cannot be printed,
  alone or inside an array.
\<close>

lemma to_string_own_toString:
  "to_string (JObj [(''toString'', JNum 1)]) = Inl TypeError"
  "to_string (JArr [JStr ''-y'', JObj [(''toString'', JNum 1)]]) = Inl TypeError"
  by (simp_all add: callable_def)

lemma converting_printable:
  "printable v \<Longrightarrow> converting file out v cont = cont (shown v)"
  by (simp add: converting_def to_string_printable)

lemma example_info:
  "snd (fetchServerInfo ''alice/demo'') =
     JObj [(''name'', JStr ''alice/demo''),
           (''command'', JStr ''npx''),
           (''args'', JArr [JStr ''-y'', JStr ''alice/demo'']),
           (''description'', JStr ''MCP Server for demo''),
           (''version'', JStr ''1.0.0'')]"
  by (simp add: fetchServerInfo_def element_def)

lemma not_index_letter: "\<not> is_digit c \<Longrightarrow> \<not> is_index (c # cs)"
  by (simp add: is_index_def)

lemma key_before_letter: "\<not> is_digit c \<Longrightarrow> key_before a (c # cs)"
  by (simp add: key_before_def is_index_def)

lemma example_registry_json: "json_value (JObj example_registry)"
  by (simp add: example_registry_def example_record_def example_info own_keys_def
      key_before_letter is_digit_def)

lemma example_pid: "stored example_record ''pid'' = JNum 4242"
  by (simp add: stored_def example_record_def)

lemma example_file: "getRunningServers (saveRunningServers example_registry) = Inr (JObj example_registry)"
  by (rule parse_stringify_object [OF example_registry_json])

section \<open>Properties of descriptor resolution\<close>

lemma split_on_no_sep: "c \<notin> set s \<Longrightarrow> split_on c s = [s]"
  by (induction s) auto

lemma split_on_first: "c \<notin> set a \<Longrightarrow> split_on c (a @ c # b) = a # split_on c b"
  by (induction a) auto

text \<open>
  C6. For an identifier of the shape \<open>scope/name\<close> (two parts without a slash, one slash
  between them), \<open>fetchServerInfo\<close> returns exactly the descriptor with command \<open>npx\<close>, args
  \<open>-y\<close> and the full identifier, name the full identifier, description \<open>MCP Server for\<close>
  followed by the part after the slash, and version \<open>1.0.0\<close>. Its only effect is the one
  logged line, which names the registry URL without contacting it; being a function of the
  identifier alone, it is deterministic.
\<close>

theorem fetchServerInfo_scoped:
  assumes "CHR ''/'' \<notin> set scope" and "CHR ''/'' \<notin> set name"
  shows "fetchServerInfo (scope @ ''/'' @ name) =
    (''Fetching information for '' @ scope @ ''/'' @ name @ '' from https://registry.mcpk.io...'',
     JObj [(''name'', JStr (scope @ ''/'' @ name)),
           (''command'', JStr ''npx''),
           (''args'', JArr [JStr ''-y'', JStr (scope @ ''/'' @ name)]),
           (''description'', JStr (''MCP Server for '' @ name)),
           (''version'', JStr ''1.0.0'')])"
proof -
  have "split_on CHR ''/'' (scope @ CHR ''/'' # name) = [scope, name]"
    using assms by (simp add: split_on_first split_on_no_sep)
  then show ?thesis
    by (simp add: fetchServerInfo_def element_def REGISTRY_URL_def)
qed

theorem fetchServerInfo_scoped_witness:
  "CHR ''/'' \<notin> set ''alice'' \<and> CHR ''/'' \<notin> set ''demo''
   \<and> fetchServerInfo ''alice/demo'' =
    (''Fetching information for alice/demo from https://registry.mcpk.io...'',
     JObj [(''name'', JStr ''alice/demo''),
           (''command'', JStr ''npx''),
           (''args'', JArr [JStr ''-y'', JStr ''alice/demo'']),
           (''description'', JStr ''MCP Server for demo''),
           (''version'', JStr ''1.0.0'')])"
  using fetchServerInfo_scoped [of "''alice''" "''demo''"] by simp

text \<open>
  C10. For an identifier without a slash the split has one part, so \<open>name\<close> is
  \<^verbatim>\<open>undefined\<close>: \<open>fetchServerInfo\<close> still returns a descriptor, and its description is the
  literal string \<open>MCP Server for undefined\<close>.
\<close>

theorem fetchServerInfo_no_slash:
  assumes "CHR ''/'' \<notin> set serverName"
  shows "snd (fetchServerInfo serverName) =
     JObj [(''name'', JStr serverName),
           (''command'', JStr ''npx''),
           (''args'', JArr [JStr ''-y'', JStr serverName]),
           (''description'', JStr ''MCP Server for undefined''),
           (''version'', JStr ''1.0.0'')]"
  using assms by (simp add: fetchServerInfo_def element_def split_on_no_sep)

theorem fetchServerInfo_no_slash_witness:
  "CHR ''/'' \<notin> set ''demo''
   \<and> snd (fetchServerInfo ''demo'') =
     JObj [(''name'', JStr ''demo''),
           (''command'', JStr ''npx''),
           (''args'', JArr [JStr ''-y'', JStr ''demo'']),
           (''description'', JStr ''MCP Server for undefined''),
           (''version'', JStr ''1.0.0'')]"
  using fetchServerInfo_no_slash [of "''demo''"] by simp

section \<open>Properties of the commands\<close>

text \<open>
  \<open>start\<close> of a name that has an entry never writes the file. When the pid stored in the
  entry cannot be printed, the command ends with the exception of the conversion and
  prints nothing.
\<close>

lemma start_present_result:
  assumes "getRunningServers file = Inr (JObj reg)"
    and "map_of reg serverName = Some (JObj rec)"
  shows "start_action env serverName file =
     (case to_string (stored rec ''pid'') of
        Inl e \<Rightarrow> \<lparr>new_file = file, console = [], thrown = Some e\<rparr>
      | Inr pid_text \<Rightarrow>
          \<lparr>new_file = file,
           console = [Stdout (''Server '' @ serverName @ '' is already running (PID: ''
                              @ pid_text @ '')'')],
           thrown = None\<rparr>)"
  using assms
  by (simp add: start_action_def reading_def converting_def get_prop_own get_prop_record_field
      pid_field truthy_def returns_def throws_def split: sum.splits)

text \<open>
  C2. When the registry already has an entry for the name (an own property whose value is
  a record object) and the pid stored in it can be printed (it is a number, as the pid
  that \<open>start\<close> stores is, or another value whose string conversion does not throw),
  \<open>start\<close> changes nothing: the file keeps its content, no exception is thrown, and the
  one line printed is the already-running message with the pid stored under that name.
\<close>

theorem start_already_running:
  assumes "getRunningServers file = Inr (JObj reg)"
    and "map_of reg serverName = Some (JObj rec)"
    and "printable (stored rec ''pid'')"
  shows "start_action env serverName file =
     \<lparr>new_file = file,
      console = [Stdout (''Server '' @ serverName @ '' is already running (PID: ''
                         @ shown (stored rec ''pid'') @ '')'')],
      thrown = None\<rparr>"
  using start_present_result [OF assms(1,2), of env] assms(3)
  by (simp add: to_string_printable)

text \<open>
  C3. When the registry has an entry for the name and \<^verbatim>\<open>process.kill\<close> throws on its stored
  pid, \<open>stop\<close> prints the failure line with the error's message on the error stream and
  leaves the file as it was: the entry stays.
\<close>

theorem stop_kill_fails:
  assumes "getRunningServers file = Inr (JObj reg)"
    and "map_of reg serverName = Some (JObj rec)"
    and "kill env (stored rec ''pid'') = KillFailed message"
  shows "stop_action env serverName file =
     \<lparr>new_file = file,
      console = [Stderr (''Failed to stop server '' @ serverName @ '': '' @ message)],
      thrown = None\<rparr>"
  using assms
  by (simp add: stop_action_def reading_def get_prop_own get_prop_record_field pid_field
      truthy_def returns_def)

theorem start_already_running_witness:
  "getRunningServers (saveRunningServers example_registry) = Inr (JObj example_registry)
   \<and> map_of example_registry ''alice/demo'' = Some (JObj example_record)
   \<and> printable (stored example_record ''pid'')
   \<and> start_action example_env ''alice/demo'' (saveRunningServers example_registry) =
     \<lparr>new_file = saveRunningServers example_registry,
      console = [Stdout ''Server alice/demo is already running (PID: 4242)''],
      thrown = None\<rparr>"
proof -
  have a: "getRunningServers (saveRunningServers example_registry) = Inr (JObj example_registry)"
    by (rule example_file)
  have b: "map_of example_registry ''alice/demo'' = Some (JObj example_record)"
    by (simp add: example_registry_def)
  have c: "printable (stored example_record ''pid'')"
    by (simp add: example_pid printable_primitive safe_integer_def)
  have d: "shown (stored example_record ''pid'') = ''4242''"
    by (simp add: example_pid shown_primitive safe_integer_def show_int_def show_nat.simps
        digit_char_eval)
  show ?thesis
    using start_already_running [OF a b c, of example_env] a b c d by simp
qed

theorem stop_kill_fails_witness:
  "getRunningServers (saveRunningServers example_registry) = Inr (JObj example_registry)
   \<and> map_of example_registry ''alice/demo'' = Some (JObj example_record)
   \<and> kill (example_env\<lparr>kill := \<lambda>pid. KillFailed ''kill EPERM''\<rparr>) (stored example_record ''pid'')
       = KillFailed ''kill EPERM''
   \<and> stop_action (example_env\<lparr>kill := \<lambda>pid. KillFailed ''kill EPERM''\<rparr>) ''alice/demo''
        (saveRunningServers example_registry) =
     \<lparr>new_file = saveRunningServers example_registry,
      console = [Stderr ''Failed to stop server alice/demo: kill EPERM''],
      thrown = None\<rparr>"
proof -
  let ?env = "example_env\<lparr>kill := \<lambda>pid. KillFailed ''kill EPERM''\<rparr>"
  have a: "getRunningServers (saveRunningServers example_registry) = Inr (JObj example_registry)"
    by (rule example_file)
  have b: "map_of example_registry ''alice/demo'' = Some (JObj example_record)"
    by (simp add: example_registry_def)
  have c: "kill ?env (stored example_record ''pid'') = KillFailed ''kill EPERM''"
    by simp
  show ?thesis
    using stop_kill_fails [OF a b c] a b c by simp
qed

text \<open>
  C7. Saving a registry and loading it again gives the registry back: the same names in
  the same order, with the same pids, start times and descriptors. The registry is any
  object that JSON text can carry (\<open>json_value\<close>: no \<^verbatim>\<open>undefined\<close> and no function inside,
  and the keys of every object distinct and in enumeration order, as they are in every
  object at run time).
\<close>

theorem save_load_roundtrip:
  assumes "json_value (JObj servers)"
  shows "getRunningServers (saveRunningServers servers) = Inr (JObj servers)"
  using assms by (rule parse_stringify_object)

theorem save_load_roundtrip_witness:
  "json_value (JObj example_registry)
   \<and> getRunningServers (saveRunningServers example_registry) = Inr (JObj example_registry)"
  using save_load_roundtrip [OF example_registry_json] example_registry_json by simp

subsection \<open>Array indices are canonical\<close>

lemma digit_char_digit_val: "is_digit c \<Longrightarrow> digit_char (digit_val c) = c"
  by (simp add: is_digit_def digit_char_def digit_val_def)

lemma digit_val_less: "is_digit c \<Longrightarrow> digit_val c < 10"
  by (auto simp: is_digit_def digit_val_def)

lemma show_nat_canonical:
  "list_all is_digit k \<Longrightarrow> k \<noteq> [] \<Longrightarrow> k = ''0'' \<or> hd k \<noteq> CHR ''0'' \<Longrightarrow>
     show_nat (nat_of_digits k) = k"
proof (induction k rule: rev_induct)
  case Nil
  then show ?case by simp
next
  case (snoc c ks)
  from snoc.prems(1) have c: "is_digit c" and ks: "list_all is_digit ks" by simp_all
  show ?case
  proof (cases "ks = []")
    case True
    then have "nat_of_digits (ks @ [c]) = digit_val c"
      by (simp add: nat_of_digits_def)
    with True c show ?thesis
      by (subst show_nat.simps) (simp add: digit_val_less digit_char_digit_val)
  next
    case False
    with snoc.prems(3) have hd: "hd ks \<noteq> CHR ''0''" by auto
    with snoc.IH ks False have ih: "show_nat (nat_of_digits ks) = ks" by simp
    have pos: "nat_of_digits ks \<noteq> 0"
    proof
      assume "nat_of_digits ks = 0"
      with ih have "hd ks = CHR ''0''" using hd_show_nat [of 0] by simp
      with hd show False by simp
    qed
    have d: "digit_val c < 10" using c by (rule digit_val_less)
    have "show_nat (nat_of_digits (ks @ [c]))
        = show_nat (nat_of_digits ks) @ [digit_char (digit_val c)]"
      using pos d by (subst show_nat.simps) (simp add: nat_of_digits_snoc)
    with ih c show ?thesis by (simp add: digit_char_digit_val)
  qed
qed

lemma index_canonical: "is_index k \<Longrightarrow> show_nat (nat_of_digits k) = k"
  by (rule show_nat_canonical) (auto simp: is_index_def)

lemma index_inj:
  "is_index a \<Longrightarrow> is_index b \<Longrightarrow> nat_of_digits a = nat_of_digits b \<Longrightarrow> a = b"
  using index_canonical [of a] index_canonical [of b] by metis

subsection \<open>Defining and deleting properties keeps the keys in order\<close>

lemma set_insert_index: "set (insert_index k v ps) = insert (k, v) (set ps)"
  by (induction ps) (auto split: if_splits)

lemma keys_insert_index: "fst ` set (insert_index k v ps) = insert k (fst ` set ps)"
  by (simp add: set_insert_index)

lemma distinct_insert_index:
  "k \<notin> fst ` set ps \<Longrightarrow> distinct (map fst ps) \<Longrightarrow> distinct (map fst (insert_index k v ps))"
  by (induction ps) (auto simp: keys_insert_index)

lemma key_before_index_trans:
  "key_before b c \<Longrightarrow> is_index b \<Longrightarrow> is_index a \<Longrightarrow> nat_of_digits a < nat_of_digits b
     \<Longrightarrow> key_before a c"
  by (auto simp: key_before_def split: if_splits)

lemma sorted_insert_index:
  assumes "is_index k"
  shows "k \<notin> fst ` set ps \<Longrightarrow> sorted_wrt key_before (map fst ps)
     \<Longrightarrow> sorted_wrt key_before (map fst (insert_index k v ps))"
proof (induction ps)
  case Nil
  then show ?case by simp
next
  case (Cons p ps)
  obtain k' v' where p: "p = (k', v')" by (cases p)
  from Cons.prems p have new: "k \<noteq> k'" "k \<notin> fst ` set ps"
    and after: "\<forall>y \<in> fst ` set ps. key_before k' y"
    and rest: "sorted_wrt key_before (map fst ps)"
    by auto
  show ?case
  proof (cases "is_index k' \<and> nat_of_digits k' < nat_of_digits k")
    case True
    then have "key_before k' k" using assms by (simp add: key_before_def)
    with True after Cons.IH [OF new(2) rest] show ?thesis
      by (auto simp: p keys_insert_index)
  next
    case False
    have first: "key_before k k'"
    proof (cases "is_index k'")
      case True
      with False have "nat_of_digits k \<le> nat_of_digits k'" by simp
      moreover have "nat_of_digits k \<noteq> nat_of_digits k'"
        using index_inj [OF assms True] new(1) by auto
      ultimately show ?thesis using assms True by (simp add: key_before_def)
    next
      case False
      then show ?thesis by (simp add: key_before_def)
    qed
    have "key_before k y" if "y \<in> fst ` set ps" for y
    proof (cases "is_index y")
      case True
      from after that have "key_before k' y" by blast
      with True have k': "is_index k'" "nat_of_digits k' < nat_of_digits y"
        by (simp_all add: key_before_def)
      with first have "nat_of_digits k < nat_of_digits k'"
        by (simp add: key_before_def)
      with k' True assms show ?thesis by (simp add: key_before_def)
    next
      case False
      then show ?thesis by (simp add: key_before_def)
    qed
    with False first after rest show ?thesis
      by (auto simp: p)
  qed
qed

lemma keys_update_prop: "map fst (update_prop k v ps) = map fst ps"
  by (induction ps) auto

lemma set_update_prop: "set (update_prop k v ps) \<subseteq> insert (k, v) (set ps)"
  by (induction ps) (auto split: if_splits)

lemma own_keys_define_prop:
  assumes "own_keys (map fst ps)"
  shows "own_keys (map fst (define_prop k v ps))"
proof (cases "k \<in> fst ` set ps")
  case True
  with assms show ?thesis by (simp add: define_prop_def keys_update_prop)
next
  case False
  show ?thesis
  proof (cases "is_index k")
    case True
    with False assms show ?thesis
      using distinct_insert_index [OF False, of v] sorted_insert_index [OF True False, of v]
      by (simp add: define_prop_def own_keys_def)
  next
    case index: False
    then have "\<forall>x. key_before x k" by (simp add: key_before_def)
    with False index assms show ?thesis
      by (auto simp: define_prop_def own_keys_def sorted_wrt_append)
  qed
qed

lemma set_define_prop: "set (define_prop k v ps) \<subseteq> insert (k, v) (set ps)"
  using set_update_prop [of k v ps]
  by (auto simp: define_prop_def set_insert_index)

lemma own_keys_delete_prop:
  assumes "own_keys (map fst ps)"
  shows "own_keys (map fst (delete_prop ps k))"
proof -
  have "map fst (delete_prop ps k) = filter (\<lambda>x. x \<noteq> k) (map fst ps)"
    by (simp add: delete_prop_def filter_map comp_def)
  with assms show ?thesis
    by (simp add: own_keys_def sorted_wrt_filter)
qed

lemma json_props_iff: "json_props ps \<longleftrightarrow> (\<forall>p \<in> set ps. json_value (snd p))"
  by (induction ps) auto

lemma json_define_prop:
  assumes "json_value (JObj ps)" and "json_value v"
  shows "json_value (JObj (define_prop k v ps))"
  using assms set_define_prop [of k v ps]
  by (auto simp: own_keys_define_prop json_props_iff)

lemma json_delete_prop:
  assumes "json_value (JObj ps)"
  shows "json_value (JObj (delete_prop ps k))"
  using assms own_keys_delete_prop [of ps k]
  by (auto simp: json_props_iff delete_prop_def)

subsection \<open>What the parser returns\<close>

lemma json_elems_iff: "json_elems xs \<longleftrightarrow> list_all json_value xs"
  by (induction xs) auto

lemma begin_value_ok:
  assumes "begin_value stk c cs = Inr (m', stk', rest)"
  shows "mode_ok m' \<and> stk' = stk"
  using assms
  by (auto simp: begin_value_def mode_ok_def own_keys_def split: if_splits sum.splits)

lemma begin_key_ok:
  assumes "begin_key ps stk c cs = Inr (m', stk', rest)" and "json_value (JObj ps)"
  shows "mode_ok m' \<and> stk' = stk"
  using assms
  by (auto simp: begin_key_def mode_ok_def split: if_splits sum.splits)

lemma step_ok:
  assumes "step m stk c cs = Inr (m', stk', rest)"
    and "mode_ok m" and "list_all frame_ok stk"
  shows "mode_ok m' \<and> list_all frame_ok stk'"
proof (cases "is_ws c")
  case True
  with assms show ?thesis by (simp add: step_def)
next
  case False
  show ?thesis
  proof (cases m)
    case MValue
    with assms False show ?thesis
      using begin_value_ok [of stk c cs m' stk' rest] by (simp add: step_def)
  next
    case MArrStart
    with assms False show ?thesis
      using begin_value_ok [of "FArr [] # stk" c cs m' stk' rest]
      by (auto simp: step_def mode_ok_def frame_ok_def split: if_splits)
  next
    case MObjStart
    with assms False show ?thesis
      using begin_key_ok [of "[]" stk c cs m' stk' rest]
      by (auto simp: step_def mode_ok_def own_keys_def split: if_splits)
  next
    case (MKey ps)
    with assms False show ?thesis
      using begin_key_ok [of ps stk c cs m' stk' rest]
      by (auto simp: step_def mode_ok_def)
  next
    case (MColon ps k)
    with assms False show ?thesis
      by (auto simp: step_def mode_ok_def frame_ok_def split: if_splits)
  next
    case (MAfter v)
    with assms(2) have v: "json_value v" by (simp add: mode_ok_def)
    show ?thesis
    proof (cases stk)
      case Nil
      with assms False MAfter show ?thesis by (simp add: step_def)
    next
      case (Cons fr stk0)
      show ?thesis
      proof (cases fr)
        case (FArr acc)
        with assms False MAfter Cons v show ?thesis
          by (auto simp: step_def mode_ok_def frame_ok_def json_elems_iff split: if_splits)
      next
        case (FObj ps k)
        with assms(3) Cons have "json_value (JObj ps)" by (simp add: frame_ok_def)
        then have "json_value (JObj (define_prop k v ps))"
          using v by (rule json_define_prop)
        with assms False MAfter Cons FObj show ?thesis
          by (auto simp: step_def mode_ok_def split: if_splits)
      qed
    qed
  qed
qed

lemma run_ok:
  "run m stk s = Inr v \<Longrightarrow> mode_ok m \<Longrightarrow> list_all frame_ok stk \<Longrightarrow> json_value v"
proof (induction m stk s rule: run.induct)
  case (1 m stk)
  then show ?case
    by (cases m) (auto simp: mode_ok_def split: if_splits)
next
  case (2 m stk c cs)
  from "2.prems"(1) obtain m' stk' rest where
    st: "step m stk c cs = Inr (m', stk', rest)" and r: "run m' stk' rest = Inr v"
    by (auto simp: run.simps split: sum.splits)
  from step_ok [OF st "2.prems"(2,3)] have "mode_ok m'" "list_all frame_ok stk'"
    by simp_all
  with "2.IH" [OF st refl refl r] show ?case .
qed

lemma parse_json:
  assumes "getRunningServers file = Inr v"
  shows "json_value v"
proof -
  have "run MValue [] file = Inr v"
    using assms by (simp add: getRunningServers_def JSON_parse_def)
  moreover have "mode_ok MValue" by (simp add: mode_ok_def)
  moreover have "list_all frame_ok []" by simp
  ultimately show ?thesis by (rule run_ok)
qed

lemma json_member:
  "json_value (JObj ps) \<Longrightarrow> map_of ps k = Some v \<Longrightarrow> json_value v"
  by (auto simp: json_props_iff dest!: map_of_SomeD)

subsection \<open>Listing\<close>

lemma startTime_field: "''startTime'' \<in> set record_fields"
  by (simp add: record_fields_def)

lemma map_fst_records: "map fst (records es) = map fst es"
  by (simp add: records_def case_prod_unfold)

lemma map_of_records:
  "distinct (map fst es) \<Longrightarrow> (name, rec) \<in> set es \<Longrightarrow>
     map_of (records es) name = Some (JObj rec)"
  by (induction es) (auto simp: records_def rev_image_eqI)

lemma date_string_printable:
  "printable v \<Longrightarrow> date_string env v = Inr (locale_string env v)"
  by (cases v) (simp_all add: date_string_def printable_def split: sum.splits)



lemma list_each_records:
  assumes "distinct (map fst all)"
  shows "set es \<subseteq> set all \<Longrightarrow> listable es \<Longrightarrow>
     list_each env file (JObj (records all)) out (map fst es)
       = returns file (out @ map (entry_line env) es)"
proof (induction es arbitrary: out)
  case Nil
  then show ?case by simp
next
  case (Cons e es)
  obtain name rec where e: "e = (name, rec)"
    by (cases e)
  have "map_of (records all) name = Some (JObj rec)"
    using assms Cons.prems e by (intro map_of_records) auto
  then have g: "get_prop (JObj (records all)) name = Inr (JObj rec)"
    by (rule get_prop_own)
  have p: "printable (stored rec ''pid'')" "printable (stored rec ''startTime'')"
    and rest: "listable es"
    using Cons.prems(2) by (simp_all add: listable_def e)
  have "list_each env file (JObj (records all)) out (map fst (e # es))
       = list_each env file (JObj (records all)) (out @ [entry_line env e]) (map fst es)"
    by (simp add: e g get_prop_record_field pid_field startTime_field entry_line_def
        to_string_printable [OF p(1)] date_string_printable [OF p(2)])
  also have "\<dots> = returns file ((out @ [entry_line env e]) @ map (entry_line env) es)"
    using Cons.prems(1) rest by (intro Cons.IH) auto
  finally show ?case by simp
qed

lemma list_lines:
  assumes "getRunningServers file = Inr (JObj (records es))"
    and "listable es"
  shows "list_action env file =
     \<lparr>new_file = file,
      console =
        (if es = [] then [Stdout ''No MCP servers are currently running'']
         else [Stdout ''Running MCP Servers:'', Stdout ''-------------------'']
              @ map (entry_line env) es),
      thrown = None\<rparr>
    \<and> length (console (list_action env file)) = (if es = [] then 1 else length es + 2)"
proof -
  have "json_value (JObj (records es))"
    using assms(1) by (rule parse_json)
  then have names: "distinct (map fst es)"
    by (simp add: own_keys_def map_fst_records)
  have a: "list_action env file =
     \<lparr>new_file = file,
      console =
        (if es = [] then [Stdout ''No MCP servers are currently running'']
         else [Stdout ''Running MCP Servers:'', Stdout ''-------------------'']
              @ map (entry_line env) es),
      thrown = None\<rparr>"
    using assms(1) list_each_records [OF names subset_refl assms(2), of env "file"]
    by (simp add: list_action_def returns_def map_fst_records)
  have "length (console (list_action env file)) = (if es = [] then 1 else length es + 2)"
    unfolding a by simp
  with a show ?thesis by simp
qed

text \<open>
  When the pid of the first entry cannot be printed, \<open>list\<close> ends with the exception of
  the conversion, after the heading and the separator.
\<close>

lemma list_unprintable_pid:
  assumes "getRunningServers file = Inr (JObj (records ((name, rec) # es)))"
    and "to_string (stored rec ''pid'') = Inl e"
  shows "list_action env file =
     \<lparr>new_file = file,
      console = [Stdout ''Running MCP Servers:'', Stdout ''-------------------''],
      thrown = Some e\<rparr>"
  using assms
  by (simp add: list_action_def records_def get_prop_own get_prop_record_field pid_field
      throws_def)






subsection \<open>Status\<close>

lemma record_field_names:
  "''info'' \<in> set record_fields" "''description'' \<in> set record_fields"
  "''version'' \<in> set record_fields" "''command'' \<in> set record_fields"
  "''args'' \<in> set record_fields"
  by (simp_all add: record_fields_def)

lemma bullet_lines_strings:
  "bullet_lines (map JStr args) = Inr (map (\<lambda>arg. ''      - '' @ arg) args)"
  by (induction args) simp_all

lemma generateConfigExample_descriptor:
  assumes "map_of info ''command'' = Some (JStr command)"
    and "map_of info ''args'' = Some (JArr (map JStr args))"
  shows "generateConfigExample serverName (JObj info) =
     Inr (stringify_object
            (claude_object (replace_first CHR ''@'' serverName) (JStr command) (map JStr args)),
          libre_snippet serverName command args)"
  using assms
  by (simp add: generateConfigExample_def get_prop_own libre_snippet_def claude_object_def
      bullet_lines_strings)

text \<open>
  When an element of \<open>args\<close> cannot be printed, no snippet is made: line 61 throws.
\<close>

lemma generateConfigExample_unprintable_arg:
  "generateConfigExample serverName
     (JObj [(''command'', JStr ''npx''), (''args'', JArr [JObj [(''toString'', JNum 1)]])])
     = Inl TypeError"
  by (simp add: generateConfigExample_def get_prop_def callable_def)

lemma status_output:
  assumes "getRunningServers file = Inr (JObj reg)"
    and "map_of reg serverName = Some (JObj rec)"
    and "map_of rec ''info'' = Some (JObj info)"
    and "map_of info ''command'' = Some (JStr command)"
    and "map_of info ''args'' = Some (JArr (map JStr args))"
    and "printable (stored rec ''pid'')" and "printable (stored rec ''startTime'')"
    and "printable (stored info ''description'')" and "printable (stored info ''version'')"
  shows "status_action serverName file =
     \<lparr>new_file = file,
      console =
        [Stdout (''Server: '' @ serverName),
         Stdout ''Status: Running'',
         Stdout (''PID: '' @ shown (stored rec ''pid'')),
         Stdout (''Started: '' @ shown (stored rec ''startTime'')),
         Stdout (''Description: '' @ shown (stored info ''description'')),
         Stdout (''Version: '' @ shown (stored info ''version'')),
         Stdout (CHR 0x0A # ''To configure in Claude Desktop:''),
         Stdout ''------------------------------'',
         Stdout ''Edit your claude_desktop_config.json:'',
         Stdout (stringify_object
                   (claude_object (replace_first CHR ''@'' serverName)
                      (JStr command) (map JStr args))),
         Stdout (CHR 0x0A # ''To configure in LibreChat:''),
         Stdout ''-------------------------'',
         Stdout ''Add to your LibreChat YAML configuration:'',
         Stdout (libre_snippet serverName command args)],
      thrown = None\<rparr>"
  using assms(1,2,3) generateConfigExample_descriptor [OF assms(4,5), of serverName]
  by (simp add: status_action_def reading_def get_prop_own get_prop_record_field pid_field
      startTime_field record_field_names truthy_def returns_def Let_def
      converting_printable [OF assms(6)] converting_printable [OF assms(7)]
      converting_printable [OF assms(8)] converting_printable [OF assms(9)])

lemma claude_object_json:
  assumes "json_value command" and "json_value (JArr args)"
  shows "json_value (JObj (claude_object key command args))"
  using assms by (simp add: claude_object_def own_keys_def key_before_letter is_digit_def)

lemma parse_claude_object:
  assumes "json_value command" and "json_value (JArr args)"
  shows "JSON_parse (stringify_object (claude_object key command args))
     = Inr (JObj (claude_object key command args))"
  using parse_stringify_object [OF claude_object_json [OF assms]]
  by (simp add: getRunningServers_def saveRunningServers_def)

text \<open>
  C8 (as amended). Take a name in the registry whose entry is a record object that holds
  a descriptor object, the command of the descriptor being a string and its args an
  array of strings (as in the data model, and in every descriptor that \<open>start\<close> stores),
  and let the pid, the start time, the description and the version that \<open>status\<close>
  prints before the snippets be printable (values whose string conversion does not
  throw). Then \<open>status\<close> leaves the file alone, throws nothing and prints, as its tenth
  line, the JSON text of exactly the object \<open>{ mcpServers: { key: { command, args } } }\<close>,
  where \<open>command\<close> and \<open>args\<close> are those of the stored descriptor and \<open>key\<close> is the server
  name with its first \<open>@\<close> removed (a later \<open>@\<close> stays). Read back by \<^verbatim>\<open>JSON.parse\<close>, the
  text is that object.
\<close>

theorem status_config_snippet:
  assumes "getRunningServers file = Inr (JObj reg)"
    and "map_of reg serverName = Some (JObj rec)"
    and "map_of rec ''info'' = Some (JObj info)"
    and "map_of info ''command'' = Some (JStr command)"
    and "map_of info ''args'' = Some (JArr (map JStr args))"
    and "printable (stored rec ''pid'')" and "printable (stored rec ''startTime'')"
    and "printable (stored info ''description'')" and "printable (stored info ''version'')"
  shows "status_action serverName file =
     \<lparr>new_file = file,
      console =
        [Stdout (''Server: '' @ serverName),
         Stdout ''Status: Running'',
         Stdout (''PID: '' @ shown (stored rec ''pid'')),
         Stdout (''Started: '' @ shown (stored rec ''startTime'')),
         Stdout (''Description: '' @ shown (stored info ''description'')),
         Stdout (''Version: '' @ shown (stored info ''version'')),
         Stdout (CHR 0x0A # ''To configure in Claude Desktop:''),
         Stdout ''------------------------------'',
         Stdout ''Edit your claude_desktop_config.json:'',
         Stdout (stringify_object
                   (claude_object (replace_first CHR ''@'' serverName)
                      (JStr command) (map JStr args))),
         Stdout (CHR 0x0A # ''To configure in LibreChat:''),
         Stdout ''-------------------------'',
         Stdout ''Add to your LibreChat YAML configuration:'',
         Stdout (libre_snippet serverName command args)],
      thrown = None\<rparr>
    \<and> JSON_parse (stringify_object
          (claude_object (replace_first CHR ''@'' serverName) (JStr command) (map JStr args)))
        = Inr (JObj [(''mcpServers'',
                      JObj [(replace_first CHR ''@'' serverName,
                             JObj [(''command'', JStr command),
                                   (''args'', JArr (map JStr args))])])])"
proof -
  have "json_value (JObj reg)"
    using assms(1) by (rule parse_json)
  then have "json_value (JObj rec)"
    using assms(2) by (rule json_member)
  then have "json_value (JObj info)"
    using assms(3) by (rule json_member)
  then have "json_value (JStr command)" and "json_value (JArr (map JStr args))"
    using assms(4,5) json_member [of info] by blast+
  then show ?thesis
    using status_output [OF assms] parse_claude_object [of "JStr command" "map JStr args"]
    by (simp add: claude_object_def)
qed

lemma example_printable:
  "printable (stored example_record ''pid'')"
  "printable (stored example_record ''startTime'')"
  "printable (stored
     [(''name'', JStr ''alice/demo''),
      (''command'', JStr ''npx''),
      (''args'', JArr [JStr ''-y'', JStr ''alice/demo'']),
      (''description'', JStr ''MCP Server for demo''),
      (''version'', JStr ''1.0.0'')] ''description'')"
  "printable (stored
     [(''name'', JStr ''alice/demo''),
      (''command'', JStr ''npx''),
      (''args'', JArr [JStr ''-y'', JStr ''alice/demo'']),
      (''description'', JStr ''MCP Server for demo''),
      (''version'', JStr ''1.0.0'')] ''version'')"
  by (simp_all add: stored_def example_record_def printable_primitive safe_integer_def)

theorem status_config_snippet_witness:
  "getRunningServers (saveRunningServers example_registry) = Inr (JObj example_registry)
   \<and> map_of example_registry ''alice/demo'' = Some (JObj example_record)
   \<and> new_file (status_action ''alice/demo'' (saveRunningServers example_registry))
       = saveRunningServers example_registry
   \<and> thrown (status_action ''alice/demo'' (saveRunningServers example_registry)) = None
   \<and> console (status_action ''alice/demo'' (saveRunningServers example_registry)) ! 9
       = Stdout (stringify_object
           [(''mcpServers'',
             JObj [(''alice/demo'',
                    JObj [(''command'', JStr ''npx''),
                          (''args'', JArr [JStr ''-y'', JStr ''alice/demo''])])])])
   \<and> JSON_parse (stringify_object
           [(''mcpServers'',
             JObj [(''alice/demo'',
                    JObj [(''command'', JStr ''npx''),
                          (''args'', JArr [JStr ''-y'', JStr ''alice/demo''])])])])
       = Inr (JObj [(''mcpServers'',
             JObj [(''alice/demo'',
                    JObj [(''command'', JStr ''npx''),
                          (''args'', JArr [JStr ''-y'', JStr ''alice/demo''])])])])"
proof -
  let ?info = "[(''name'', JStr ''alice/demo''),
           (''command'', JStr ''npx''),
           (''args'', JArr [JStr ''-y'', JStr ''alice/demo'']),
           (''description'', JStr ''MCP Server for demo''),
           (''version'', JStr ''1.0.0'')]"
  have a: "getRunningServers (saveRunningServers example_registry) = Inr (JObj example_registry)"
    by (rule example_file)
  have b: "map_of example_registry ''alice/demo'' = Some (JObj example_record)"
    by (simp add: example_registry_def)
  have c: "map_of example_record ''info'' = Some (JObj ?info)"
    by (simp add: example_record_def example_info)
  have d: "map_of ?info ''command'' = Some (JStr ''npx'')"
    by simp
  have e: "map_of ?info ''args'' = Some (JArr (map JStr [''-y'', ''alice/demo'']))"
    by simp
  show ?thesis
    using status_config_snippet [OF a b c d e example_printable] a b
    by (simp add: claude_object_def)
qed

text \<open>
  The claim as stated fails for a name with a second \<open>@\<close>, such as a package name with a
  version: the key that \<open>status\<close> prints still holds the later \<open>@\<close>, so the snippet is not
  the object keyed by the name without \<open>@\<close>.
\<close>

theorem status_config_snippet_counterexample:
  "getRunningServers (saveRunningServers versioned_registry) = Inr (JObj versioned_registry)
   \<and> filter (\<lambda>c. c \<noteq> CHR ''@'') ''@alice/demo@1.0.0'' = ''alice/demo1.0.0''
   \<and> console (status_action ''@alice/demo@1.0.0'' (saveRunningServers versioned_registry)) ! 9
       = Stdout (stringify_object
           (claude_object ''alice/demo@1.0.0'' (JStr ''npx'') [JStr ''-y'', JStr ''alice/demo'']))
   \<and> console (status_action ''@alice/demo@1.0.0'' (saveRunningServers versioned_registry)) ! 9
       \<noteq> Stdout (stringify_object
           (claude_object ''alice/demo1.0.0'' (JStr ''npx'') [JStr ''-y'', JStr ''alice/demo'']))"
proof -
  let ?info = "[(''name'', JStr ''alice/demo''),
           (''command'', JStr ''npx''),
           (''args'', JArr [JStr ''-y'', JStr ''alice/demo'']),
           (''description'', JStr ''MCP Server for demo''),
           (''version'', JStr ''1.0.0'')]"
  have "json_value (JObj versioned_registry)"
    by (simp add: versioned_registry_def example_record_def example_info own_keys_def
        key_before_letter is_digit_def)
  then have a: "getRunningServers (saveRunningServers versioned_registry)
      = Inr (JObj versioned_registry)"
    by (rule parse_stringify_object)
  have b: "map_of versioned_registry ''@alice/demo@1.0.0'' = Some (JObj example_record)"
    by (simp add: versioned_registry_def)
  have c: "map_of example_record ''info'' = Some (JObj ?info)"
    by (simp add: example_record_def example_info)
  have d: "map_of ?info ''command'' = Some (JStr ''npx'')"
    by simp
  have e: "map_of ?info ''args'' = Some (JArr (map JStr [''-y'', ''alice/demo'']))"
    by simp
  have f: "json_value (JStr ''npx'')" "json_value (JArr [JStr ''-y'', JStr ''alice/demo''])"
    by simp_all
  have line: "console (status_action ''@alice/demo@1.0.0'' (saveRunningServers versioned_registry)) ! 9
       = Stdout (stringify_object
           (claude_object ''alice/demo@1.0.0'' (JStr ''npx'') [JStr ''-y'', JStr ''alice/demo'']))"
    using status_output [OF a b c d e example_printable] by simp
  have "stringify_object
           (claude_object ''alice/demo@1.0.0'' (JStr ''npx'') [JStr ''-y'', JStr ''alice/demo''])
      \<noteq> stringify_object
           (claude_object ''alice/demo1.0.0'' (JStr ''npx'') [JStr ''-y'', JStr ''alice/demo''])"
  proof
    assume "stringify_object
           (claude_object ''alice/demo@1.0.0'' (JStr ''npx'') [JStr ''-y'', JStr ''alice/demo''])
      = stringify_object
           (claude_object ''alice/demo1.0.0'' (JStr ''npx'') [JStr ''-y'', JStr ''alice/demo''])"
    then have "JSON_parse (stringify_object
           (claude_object ''alice/demo@1.0.0'' (JStr ''npx'') [JStr ''-y'', JStr ''alice/demo'']))
      = JSON_parse (stringify_object
           (claude_object ''alice/demo1.0.0'' (JStr ''npx'') [JStr ''-y'', JStr ''alice/demo'']))"
      by (rule arg_cong)
    then have "claude_object ''alice/demo@1.0.0'' (JStr ''npx'') [JStr ''-y'', JStr ''alice/demo'']
      = claude_object ''alice/demo1.0.0'' (JStr ''npx'') [JStr ''-y'', JStr ''alice/demo'']"
      unfolding parse_claude_object [OF f] by simp
    then show False by (simp add: claude_object_def)
  qed
  with a line show ?thesis by simp
qed

subsection \<open>Names that every object inherits\<close>

lemma initial_file_empty: "getRunningServers (initial_file None) = Inr (JObj [])"
proof -
  have "json_value (JObj [])" by (simp add: own_keys_def)
  from parse_stringify_object [OF this] show ?thesis
    by (simp add: initial_file_def saveRunningServers_def)
qed

lemma save_empty: "saveRunningServers [] = initial_file None"
  by (simp add: saveRunningServers_def initial_file_def)

lemma get_prop_constructor:
  "get_prop (JObj []) ''constructor'' = Inr (JNative ''constructor'')"
  by (simp add: get_prop_def object_prototype_def inherited_names_def)

lemma get_prop_native_pid: "get_prop (JNative f) ''pid'' = Inr JUndefined"
  by (simp add: get_prop_def record_fields_def)

text \<open>
  C1 fails on the code. On a fresh registry, which has no entry named \<open>constructor\<close>,
  \<open>start constructor\<close> finds the function that every object inherits under that name,
  takes it for a running server and returns: the file is not written, the message is the
  already-running one with the pid \<open>undefined\<close>, and a following \<open>list\<close> still prints the
  empty-state message.
\<close>

theorem start_inherited_name:
  "start_action env ''constructor'' (initial_file None) =
     \<lparr>new_file = initial_file None,
      console = [Stdout ''Server constructor is already running (PID: undefined)''],
      thrown = None\<rparr>
   \<and> getRunningServers (new_file (start_action env ''constructor'' (initial_file None)))
       = Inr (JObj [])
   \<and> console (list_action env (new_file (start_action env ''constructor'' (initial_file None))))
       = [Stdout ''No MCP servers are currently running'']"
proof -
  have a: "start_action env ''constructor'' (initial_file None) =
     \<lparr>new_file = initial_file None,
      console = [Stdout ''Server constructor is already running (PID: undefined)''],
      thrown = None\<rparr>"
    by (simp add: start_action_def initial_file_empty reading_def converting_def
        get_prop_constructor get_prop_native_pid truthy_def returns_def)
  have "console (list_action env (initial_file None))
       = [Stdout ''No MCP servers are currently running'']"
    by (simp add: list_action_def initial_file_empty returns_def)
  with a initial_file_empty show ?thesis by simp
qed

theorem start_inherited_name_witness:
  "console (start_action example_env ''constructor'' (initial_file None))
     = [Stdout ''Server constructor is already running (PID: undefined)'']"
  using start_inherited_name [of example_env] by simp

text \<open>
  C5 fails on the code. On a fresh registry, \<open>stop constructor\<close> does not print the
  not-running message: the inherited function passes for an entry, \<^verbatim>\<open>process.kill\<close> is
  called with the pid \<open>undefined\<close>, and the command prints the failure line when that call
  throws (as it does in Node.js) and the success line otherwise. The content of the file
  stays the same.
\<close>

theorem stop_inherited_name:
  "stop_action env ''constructor'' (initial_file None) =
     (case kill env JUndefined of
        Killed \<Rightarrow>
          \<lparr>new_file = initial_file None,
           console = [Stdout ''Server constructor stopped successfully''],
           thrown = None\<rparr>
      | KillFailed message \<Rightarrow>
          \<lparr>new_file = initial_file None,
           console = [Stderr (''Failed to stop server constructor: '' @ message)],
           thrown = None\<rparr>)
   \<and> console (stop_action env ''constructor'' (initial_file None))
       \<noteq> [Stdout ''Server constructor is not running'']"
  by (cases "kill env JUndefined")
    (simp_all add: stop_action_def initial_file_empty reading_def get_prop_constructor
      get_prop_native_pid truthy_def returns_def delete_prop_def save_empty)

theorem stop_inherited_name_witness:
  "console (stop_action example_env ''constructor'' (initial_file None))
     = [Stderr ''Failed to stop server constructor: kill ESRCH'']"
  using stop_inherited_name [of example_env] by (simp add: example_env_def)

subsection \<open>A property that is undefined leaves no trace in the file\<close>

lemma ser_props_map:
  "map (\<lambda>p. (fst p, ser ind (snd p))) ps = map (\<lambda>p. (fst p, ser ind (snd p))) ps'
     \<Longrightarrow> ser_props ind ps = ser_props ind ps'"
proof (induction ps arbitrary: ps')
  case Nil
  then show ?case by simp
next
  case (Cons p ps)
  then obtain p' qs where ps': "ps' = p' # qs" by (cases ps') auto
  with Cons.prems have "fst p = fst p'" "ser ind (snd p) = ser ind (snd p')"
    and "map (\<lambda>p. (fst p, ser ind (snd p))) ps = map (\<lambda>p. (fst p, ser ind (snd p))) qs"
    by simp_all
  with Cons.IH [of qs] ps' show ?case
    by (cases p; cases p') (simp split: option.splits)
qed

lemma map_update_prop_cong:
  "g (k, v) = g (k, v') \<Longrightarrow> map g (update_prop k v ps) = map g (update_prop k v' ps)"
  by (induction ps) auto

lemma map_insert_index_cong:
  "g (k, v) = g (k, v') \<Longrightarrow> map g (insert_index k v ps) = map g (insert_index k v' ps)"
  by (induction ps) auto

lemma map_define_prop_cong:
  assumes "g (k, v) = g (k, v')"
  shows "map g (define_prop k v ps) = map g (define_prop k v' ps)"
  using map_update_prop_cong [OF assms, of ps] map_insert_index_cong [OF assms, of ps] assms
  by (simp add: define_prop_def)

lemma stringify_define_undefined:
  "stringify_object (define_prop k (JObj ((k0, JUndefined) # r)) ps)
     = stringify_object (define_prop k (JObj r) ps)"
proof -
  have "ser_props gap (define_prop k (JObj ((k0, JUndefined) # r)) ps)
      = ser_props gap (define_prop k (JObj r) ps)"
    by (rule ser_props_map, rule map_define_prop_cong) simp
  then show ?thesis by (simp add: stringify_object_def)
qed

subsection \<open>The registries that the commands write\<close>

lemma fetchServerInfo_json: "json_value (snd (fetchServerInfo serverName))"
  by (simp add: fetchServerInfo_def Let_def own_keys_def key_before_letter is_digit_def)

lemma fetchServerInfo_fields:
  "get_prop (snd (fetchServerInfo serverName)) ''command'' = Inr (JStr ''npx'')"
  "get_prop (snd (fetchServerInfo serverName)) ''args'' = Inr (JArr [JStr ''-y'', JStr serverName])"
  by (simp_all add: fetchServerInfo_def Let_def get_prop_def)

lemma inherited_value:
  "object_prototype k = Some p \<Longrightarrow> p = JObj [] \<or> p = JNative k"
  by (simp add: object_prototype_def split: if_splits)

lemma inherited_truthy:
  assumes "object_prototype k = Some p"
  shows "truthy p \<and> get_prop p ''pid'' = Inr JUndefined"
proof -
  have "get_prop (JObj []) ''pid'' = Inr JUndefined"
    using get_prop_record_field [OF pid_field, of "[]"] by (simp add: stored_def)
  with inherited_value [OF assms] show ?thesis
    by (auto simp: truthy_def get_prop_native_pid)
qed

lemma get_prop_absent:
  "map_of ps k = None \<Longrightarrow> object_prototype k = None \<Longrightarrow> get_prop (JObj ps) k = Inr JUndefined"
  by (simp add: get_prop_def)

lemma get_prop_inherited:
  "map_of ps k = None \<Longrightarrow> object_prototype k = Some p \<Longrightarrow> get_prop (JObj ps) k = Inr p"
  by (simp add: get_prop_def)

lemma start_present:
  assumes "getRunningServers file = Inr (JObj reg)"
    and "map_of reg serverName = Some (JObj rec)"
  shows "new_file (start_action env serverName file) = file"
  using start_present_result [OF assms, of env]
  by (simp split: sum.splits)

lemma start_inherited:
  assumes "getRunningServers file = Inr (JObj reg)"
    and "map_of reg serverName = None" and "object_prototype serverName = Some p"
  shows "start_action env serverName file =
     \<lparr>new_file = file,
      console = [Stdout (''Server '' @ serverName @ '' is already running (PID: undefined)'')],
      thrown = None\<rparr>"
  using assms inherited_truthy [OF assms(3)]
  by (simp add: start_action_def reading_def converting_def get_prop_inherited returns_def)

text \<open>
  \<open>start\<close> of a name that has no entry and is not inherited writes the registry with the
  new record, after the two lines of progress; the last line carries the pid of the
  child.
\<close>

lemma start_new_result:
  assumes "getRunningServers file = Inr (JObj reg)"
    and "map_of reg serverName = None" and "object_prototype serverName = None"
  shows "start_action env serverName file =
     (case to_string (child_pid env serverName) of
        Inl e \<Rightarrow>
          \<lparr>new_file = saveRunningServers (define_prop serverName (new_record env serverName) reg),
           console =
             [Stdout (fst (fetchServerInfo serverName)),
              Stdout (''Starting '' @ serverName @ ''...'')],
           thrown = Some e\<rparr>
      | Inr pid_text \<Rightarrow>
          \<lparr>new_file = saveRunningServers (define_prop serverName (new_record env serverName) reg),
           console =
             [Stdout (fst (fetchServerInfo serverName)),
              Stdout (''Starting '' @ serverName @ ''...''),
              Stdout (''Server '' @ serverName @ '' started successfully (PID: ''
                      @ pid_text @ '')'')],
           thrown = None\<rparr>)"
proof -
  have "serverName \<noteq> ''__proto__''"
    using assms(3) by (auto simp: object_prototype_def)
  then show ?thesis
    using assms
    by (simp add: start_action_def reading_def converting_def get_prop_absent truthy_def
        returns_def throws_def case_prod_unfold Let_def fetchServerInfo_fields assign_prop_def
        new_record_def child_pid_def split: sum.splits)
qed

lemma start_new:
  assumes "getRunningServers file = Inr (JObj reg)"
    and "map_of reg serverName = None" and "object_prototype serverName = None"
  shows "new_file (start_action env serverName file)
     = saveRunningServers (define_prop serverName (new_record env serverName) reg)"
  using start_new_result [OF assms, of env]
  by (simp split: sum.splits)

lemma stop_present:
  assumes "getRunningServers file = Inr (JObj reg)"
    and "map_of reg serverName = Some (JObj rec)"
  shows "stop_action env serverName file =
     (case kill env (stored rec ''pid'') of
        Killed \<Rightarrow>
          \<lparr>new_file = saveRunningServers (delete_prop reg serverName),
           console = [Stdout (''Server '' @ serverName @ '' stopped successfully'')],
           thrown = None\<rparr>
      | KillFailed message \<Rightarrow>
          \<lparr>new_file = file,
           console = [Stderr (''Failed to stop server '' @ serverName @ '': '' @ message)],
           thrown = None\<rparr>)"
  using assms
  by (simp add: stop_action_def reading_def get_prop_own get_prop_record_field pid_field
      truthy_def returns_def split: kill_result.splits)

lemma stop_inherited:
  assumes "getRunningServers file = Inr (JObj reg)"
    and "map_of reg serverName = None" and "object_prototype serverName = Some p"
  shows "stop_action env serverName file =
     (case kill env JUndefined of
        Killed \<Rightarrow>
          \<lparr>new_file = saveRunningServers (delete_prop reg serverName),
           console = [Stdout (''Server '' @ serverName @ '' stopped successfully'')],
           thrown = None\<rparr>
      | KillFailed message \<Rightarrow>
          \<lparr>new_file = file,
           console = [Stderr (''Failed to stop server '' @ serverName @ '': '' @ message)],
           thrown = None\<rparr>)"
  using assms inherited_truthy [OF assms(3)]
  by (simp add: stop_action_def reading_def get_prop_inherited returns_def
      split: kill_result.splits)

text \<open>
  \<open>stop\<close> of a name that has no entry and is not inherited prints the not-running line
  and does not write the file.
\<close>

lemma stop_absent:
  assumes "getRunningServers file = Inr (JObj reg)"
    and "map_of reg serverName = None" and "object_prototype serverName = None"
  shows "stop_action env serverName file =
     \<lparr>new_file = file,
      console = [Stdout (''Server '' @ serverName @ '' is not running'')],
      thrown = None\<rparr>"
  using assms
  by (simp add: stop_action_def reading_def get_prop_absent truthy_def returns_def)

lemma status_absent:
  assumes "getRunningServers file = Inr (JObj reg)"
    and "map_of reg serverName = None" and "object_prototype serverName = None"
  shows "status_action serverName file =
     \<lparr>new_file = file,
      console = [Stdout (''Server '' @ serverName @ '' is not running'')],
      thrown = None\<rparr>"
  using assms
  by (simp add: status_action_def reading_def get_prop_absent truthy_def returns_def)

lemma tool_registry_empty: "tool_registry []"
  by (simp add: tool_registry_def own_keys_def)

lemma tool_registry_delete: "tool_registry reg \<Longrightarrow> tool_registry (delete_prop reg k)"
  using json_delete_prop [of reg k]
  by (auto simp: tool_registry_def list_all_iff delete_prop_def)

lemma tool_registry_define:
  assumes "tool_registry reg" and "object_prototype k = None"
    and "json_value v" and "is_record v"
  shows "tool_registry (define_prop k v reg)"
proof -
  have "json_value (JObj (define_prop k v reg))"
    using assms(1,3) by (intro json_define_prop) (simp_all add: tool_registry_def)
  moreover have "object_prototype (fst p) = None \<and> is_record (snd p)"
    if "p \<in> set (define_prop k v reg)" for p
    using that set_define_prop [of k v reg] assms
    by (auto simp: tool_registry_def list_all_iff)
  ultimately show ?thesis
    by (simp add: tool_registry_def list_all_iff)
qed

lemma tool_registry_entry:
  "tool_registry reg \<Longrightarrow> map_of reg k = Some v \<Longrightarrow>
     object_prototype k = None \<and> (\<exists>rec. v = JObj rec)"
proof -
  assume t: "tool_registry reg" and m: "map_of reg k = Some v"
  from m have "(k, v) \<in> set reg" by (rule map_of_SomeD)
  with t have "object_prototype (fst (k, v)) = None \<and> is_record (snd (k, v))"
    unfolding tool_registry_def list_all_iff by blast
  then show ?thesis
    by (cases v) (simp_all add: is_record_def)
qed

lemma tool_registry_parse:
  "tool_registry reg \<Longrightarrow> getRunningServers (saveRunningServers reg) = Inr (JObj reg)"
  by (simp add: tool_registry_def parse_stringify_object)

lemma save_new_record:
  "saveRunningServers (define_prop k (new_record env serverName) reg)
     = saveRunningServers (define_prop k (written_record env serverName) reg)"
  by (cases "spawn_pid env (JStr ''npx'') (JArr [JStr ''-y'', JStr serverName])")
    (simp_all add: written_record_def new_record_def child_pid_def saveRunningServers_def
      stringify_define_undefined)

lemma written_record_json:
  "json_value (written_record env serverName) \<and> is_record (written_record env serverName)"
  by (cases "spawn_pid env (JStr ''npx'') (JArr [JStr ''-y'', JStr serverName])")
    (simp_all add: written_record_def new_record_def child_pid_def fetchServerInfo_json
      own_keys_def key_before_letter is_digit_def is_record_def)

lemma start_preserves:
  assumes "getRunningServers file = Inr (JObj reg)" and "tool_registry reg"
  shows "\<exists>reg'. getRunningServers (new_file (start_action env serverName file)) = Inr (JObj reg')
               \<and> tool_registry reg'"
proof (cases "map_of reg serverName")
  case (Some v)
  then obtain rec where "v = JObj rec"
    using tool_registry_entry [OF assms(2)] by blast
  with Some assms show ?thesis
    using start_present [OF assms(1), of serverName rec env] by auto
next
  case None
  show ?thesis
  proof (cases "object_prototype serverName")
    case (Some p)
    with None assms show ?thesis
      using start_inherited [OF assms(1) None Some, of env] by auto
  next
    case inherited: None
    let ?reg = "define_prop serverName (written_record env serverName) reg"
    have "tool_registry ?reg"
      using assms(2) inherited written_record_json by (intro tool_registry_define) simp_all
    moreover have "new_file (start_action env serverName file) = saveRunningServers ?reg"
      using start_new [OF assms(1) None inherited, of env] by (simp add: save_new_record)
    ultimately show ?thesis
      using tool_registry_parse by auto
  qed
qed

lemma stop_preserves:
  assumes "getRunningServers file = Inr (JObj reg)" and "tool_registry reg"
  shows "\<exists>reg'. getRunningServers (new_file (stop_action env serverName file)) = Inr (JObj reg')
               \<and> tool_registry reg'"
proof -
  have deleted: "getRunningServers (saveRunningServers (delete_prop reg serverName))
       = Inr (JObj (delete_prop reg serverName))
     \<and> tool_registry (delete_prop reg serverName)"
    using tool_registry_delete [OF assms(2)] tool_registry_parse by blast
  show ?thesis
  proof (cases "map_of reg serverName")
    case (Some v)
    then obtain rec where "v = JObj rec"
      using tool_registry_entry [OF assms(2)] by blast
    with Some assms deleted show ?thesis
      using stop_present [OF assms(1), of serverName rec env]
      by (cases "kill env (stored rec ''pid'')") auto
  next
    case None
    show ?thesis
    proof (cases "object_prototype serverName")
      case (Some p)
      with None assms deleted show ?thesis
        using stop_inherited [OF assms(1) None Some, of env]
        by (cases "kill env JUndefined") auto
    next
      case inherited: None
      with None assms show ?thesis
        using stop_absent [OF assms(1) None inherited, of env] by auto
    qed
  qed
qed

lemma reachable_registry:
  "reachable file \<Longrightarrow> \<exists>reg. getRunningServers file = Inr (JObj reg) \<and> tool_registry reg"
proof (induction rule: reachable.induct)
  case fresh
  then show ?case using initial_file_empty tool_registry_empty by blast
next
  case (started f env serverName)
  then show ?case using start_preserves by blast
next
  case (stopped f env serverName)
  then show ?case using stop_preserves by blast
qed

lemma tool_registry_records: "tool_registry reg \<Longrightarrow> \<exists>es. reg = records es"
proof (induction reg)
  case Nil
  have "[] = records []" by (simp add: records_def)
  then show ?case by blast
next
  case (Cons p reg)
  from Cons.prems have "tool_registry reg"
    by (auto simp: tool_registry_def own_keys_def json_props_iff)
  with Cons.IH obtain es where es: "reg = records es" by blast
  from Cons.prems obtain k rec where "p = (k, JObj rec)"
    by (cases p; cases "snd p") (auto simp: tool_registry_def is_record_def)
  with es have "p # reg = records ((k, rec) # es)" by (simp add: records_def)
  then show ?case by blast
qed

lemma map_of_update_prop:
  "map_of (update_prop k v ps) k' = (if k' = k \<and> k \<in> fst ` set ps then Some v else map_of ps k')"
  by (induction ps) (auto simp: rev_image_eqI)

lemma map_of_insert_index:
  "k \<notin> fst ` set ps \<Longrightarrow>
     map_of (insert_index k v ps) k' = (if k' = k then Some v else map_of ps k')"
  by (induction ps) (auto simp: rev_image_eqI)

lemma map_of_define_prop:
  "map_of (define_prop k v ps) k' = (if k' = k then Some v else map_of ps k')"
proof (cases "k \<in> fst ` set ps")
  case True
  then show ?thesis by (simp add: define_prop_def map_of_update_prop)
next
  case False
  then have "map_of ps k = None" by (simp add: map_of_eq_None_iff)
  with False show ?thesis
    by (auto simp: define_prop_def map_of_insert_index map_add_def split: option.splits)
qed

lemma length_define_prop:
  "k \<notin> fst ` set ps \<Longrightarrow> length (define_prop k v ps) = Suc (length ps)"
proof -
  have "length (insert_index k v ps) = Suc (length ps)"
    by (induction ps) auto
  then show "k \<notin> fst ` set ps \<Longrightarrow> length (define_prop k v ps) = Suc (length ps)"
    by (simp add: define_prop_def)
qed

text \<open>
  For the names that objects do not inherit, \<open>start\<close> does add the entry. On a registry
  file that the commands can have left behind, \<open>start\<close> of a name that has no entry and
  is not inherited writes a registry with exactly one entry more, under that name, and leaves the
  other names as they were. Read back, the entry holds the start time, the descriptor,
  and the pid when \<^verbatim>\<open>spawn\<close> returned one; and \<open>list\<close> on the new file prints a line for
  every entry, the new one among them, when the pid and the start time of every entry
  can be printed.
\<close>

lemma start_adds_entry:
  assumes "reachable file"
    and "getRunningServers file = Inr (JObj reg)"
    and "map_of reg serverName = None"
    and "object_prototype serverName = None"
  shows "\<exists>es rec.
       getRunningServers (new_file (start_action env serverName file)) = Inr (JObj (records es))
     \<and> written_record env serverName = JObj rec
     \<and> map_of (records es) serverName = Some (JObj rec)
     \<and> (\<forall>other. other \<noteq> serverName \<longrightarrow> map_of (records es) other = map_of reg other)
     \<and> length es = Suc (length reg)
     \<and> (serverName, rec) \<in> set es
     \<and> (listable es \<longrightarrow>
          console (list_action env' (new_file (start_action env serverName file)))
            = [Stdout ''Running MCP Servers:'', Stdout ''-------------------'']
              @ map (entry_line env') es)"
proof -
  let ?reg = "define_prop serverName (written_record env serverName) reg"
  from reachable_registry [OF assms(1)] assms(2) have inv: "tool_registry reg"
    by auto
  have inv': "tool_registry ?reg"
    using inv assms(4) written_record_json by (intro tool_registry_define) simp_all
  then obtain es where es: "?reg = records es"
    using tool_registry_records by blast
  obtain rec where rec: "written_record env serverName = JObj rec"
    using written_record_json [of env serverName]
    by (cases "written_record env serverName") (simp_all add: is_record_def)
  have file': "new_file (start_action env serverName file) = saveRunningServers ?reg"
    using start_new [OF assms(2,3,4), of env] by (simp add: save_new_record)
  have parsed: "getRunningServers (new_file (start_action env serverName file))
      = Inr (JObj (records es))"
    using tool_registry_parse [OF inv'] by (simp add: file' es)
  have new: "serverName \<notin> fst ` set reg"
    using assms(3) by (simp add: map_of_eq_None_iff)
  have len: "length es = Suc (length reg)"
    using length_define_prop [OF new, of "written_record env serverName"]
    by (simp add: es records_def)
  have entry: "map_of (records es) serverName = Some (JObj rec)"
    using map_of_define_prop [of serverName "written_record env serverName" reg serverName]
    by (simp add: es [symmetric] rec)
  then have "(serverName, JObj rec) \<in> set (records es)"
    by (rule map_of_SomeD)
  then have member: "(serverName, rec) \<in> set es"
    by (auto simp: records_def)
  have others: "\<forall>other. other \<noteq> serverName \<longrightarrow> map_of (records es) other = map_of reg other"
    using map_of_define_prop [of serverName "written_record env serverName" reg]
    by (simp add: es [symmetric])
  have "es \<noteq> []" using len by auto
  then have "console (list_action env' (new_file (start_action env serverName file)))
         = [Stdout ''Running MCP Servers:'', Stdout ''-------------------'']
           @ map (entry_line env') es" if "listable es"
    using list_lines [OF parsed that, of env'] by simp
  with parsed rec entry others len member show ?thesis by blast
qed

lemma map_of_delete_prop:
  "map_of (delete_prop reg k) k' = (if k' = k then None else map_of reg k')"
  by (induction reg) (auto simp: delete_prop_def)

text \<open>
  C4. Take any registry file that the commands can have left behind, and a name that
  has an entry in it. If \<^verbatim>\<open>process.kill\<close> returns on the stored pid, \<open>stop\<close> prints the
  success line and writes the registry without that entry: the new file, read back, is
  the old registry with the name deleted and every other name mapped as before; and
  \<open>status\<close> for the name, run on the new file, prints the not-running line.
\<close>

theorem stop_removes_entry:
  assumes "reachable file"
    and "getRunningServers file = Inr (JObj reg)"
    and "map_of reg serverName = Some (JObj rec)"
    and "kill env (stored rec ''pid'') = Killed"
  shows "stop_action env serverName file =
       \<lparr>new_file = saveRunningServers (delete_prop reg serverName),
        console = [Stdout (''Server '' @ serverName @ '' stopped successfully'')],
        thrown = None\<rparr>
     \<and> getRunningServers (saveRunningServers (delete_prop reg serverName))
         = Inr (JObj (delete_prop reg serverName))
     \<and> map_of (delete_prop reg serverName) serverName = None
     \<and> (\<forall>other. other \<noteq> serverName
           \<longrightarrow> map_of (delete_prop reg serverName) other = map_of reg other)
     \<and> status_action serverName (saveRunningServers (delete_prop reg serverName)) =
       \<lparr>new_file = saveRunningServers (delete_prop reg serverName),
        console = [Stdout (''Server '' @ serverName @ '' is not running'')],
        thrown = None\<rparr>"
proof -
  from reachable_registry [OF assms(1)] assms(2) have inv: "tool_registry reg"
    by auto
  have plain: "object_prototype serverName = None"
    using tool_registry_entry [OF inv assms(3)] by simp
  have stop: "stop_action env serverName file =
       \<lparr>new_file = saveRunningServers (delete_prop reg serverName),
        console = [Stdout (''Server '' @ serverName @ '' stopped successfully'')],
        thrown = None\<rparr>"
    using stop_present [OF assms(2,3), of env] assms(4) by simp
  have reread: "getRunningServers (saveRunningServers (delete_prop reg serverName))
         = Inr (JObj (delete_prop reg serverName))"
    using tool_registry_delete [OF inv] by (rule tool_registry_parse)
  have gone: "map_of (delete_prop reg serverName) serverName = None"
    by (simp add: map_of_delete_prop)
  have status: "status_action serverName (saveRunningServers (delete_prop reg serverName)) =
       \<lparr>new_file = saveRunningServers (delete_prop reg serverName),
        console = [Stdout (''Server '' @ serverName @ '' is not running'')],
        thrown = None\<rparr>"
    using reread gone plain by (rule status_absent)
  from stop reread gone status show ?thesis
    by (simp add: map_of_delete_prop)
qed

lemma example_start:
  "new_file (start_action example_env ''alice/demo'' (initial_file None))
     = saveRunningServers example_registry"
proof -
  have "object_prototype ''alice/demo'' = None"
    by (simp add: object_prototype_def inherited_names_def)
  from start_new [OF initial_file_empty _ this, of example_env]
  show ?thesis
    by (simp add: new_record_def child_pid_def example_env_def example_registry_def
        example_record_def define_prop_def not_index_letter is_digit_def)
qed

theorem stop_removes_entry_witness:
  "reachable (saveRunningServers example_registry)
   \<and> getRunningServers (saveRunningServers example_registry) = Inr (JObj example_registry)
   \<and> map_of example_registry ''alice/demo'' = Some (JObj example_record)
   \<and> kill example_env (stored example_record ''pid'') = Killed
   \<and> stop_action example_env ''alice/demo'' (saveRunningServers example_registry) =
       \<lparr>new_file = saveRunningServers [],
        console = [Stdout ''Server alice/demo stopped successfully''],
        thrown = None\<rparr>
   \<and> getRunningServers (saveRunningServers []) = Inr (JObj [])
   \<and> status_action ''alice/demo'' (saveRunningServers []) =
       \<lparr>new_file = saveRunningServers [],
        console = [Stdout ''Server alice/demo is not running''],
        thrown = None\<rparr>"
proof -
  have r: "reachable (saveRunningServers example_registry)"
    using reachable.started [OF reachable.fresh, of example_env "''alice/demo''"]
    by (simp add: example_start)
  have a: "getRunningServers (saveRunningServers example_registry) = Inr (JObj example_registry)"
    by (rule example_file)
  have b: "map_of example_registry ''alice/demo'' = Some (JObj example_record)"
    by (simp add: example_registry_def)
  have c: "kill example_env (stored example_record ''pid'') = Killed"
    by (simp add: example_env_def stored_def example_record_def)
  have d: "delete_prop example_registry ''alice/demo'' = []"
    by (simp add: delete_prop_def example_registry_def)
  show ?thesis
    using stop_removes_entry [OF r a b c] r a b c by (simp add: d)
qed

end
